theory Spec2Isabelle
  imports Main "HOL-Library.AList" "HOL-Library.Sublist" "HOL-Library.Word"
begin

section \<open>Go strings\<close>

text \<open>
  A Go string is a sequence of bytes, here a \<^typ>\<open>string\<close>. The functions of package
  \<^verbatim>\<open>strings\<close> that the backend calls are written out: \<^verbatim>\<open>HasPrefix\<close>, \<^verbatim>\<open>Index\<close>,
  \<^verbatim>\<open>Contains\<close> (which is \<^verbatim>\<open>Index(s, substr) >= 0\<close>) and \<^verbatim>\<open>Split\<close>, which cuts at the
  leftmost occurrence of the separator and goes on with the rest. With an empty separator
  \<^verbatim>\<open>Split\<close> explodes the string; the backend never calls it that way.
\<close>

fun HasPrefix :: "string \<Rightarrow> string \<Rightarrow> bool" where
  "HasPrefix s [] = True"
| "HasPrefix [] (p # ps) = False"
| "HasPrefix (c # s) (p # ps) = (c = p \<and> HasPrefix s ps)"

fun Index :: "string \<Rightarrow> string \<Rightarrow> nat option" where
  "Index [] substr = (if substr = [] then Some 0 else None)"
| "Index (c # s) substr =
     (if HasPrefix (c # s) substr then Some 0 else map_option Suc (Index s substr))"

definition Contains :: "string \<Rightarrow> string \<Rightarrow> bool" where
  "Contains s substr = (Index s substr \<noteq> None)"

function Split :: "string \<Rightarrow> string \<Rightarrow> string list" where
  "Split s sep =
     (if sep = [] then map (\<lambda>c. [c]) s
      else (case Index s sep of
              None \<Rightarrow> [s]
            | Some m \<Rightarrow> take m s # Split (drop (m + length sep) s) sep))"
  by pat_completeness auto
termination
proof (relation "measure (\<lambda>(s, sep). length s)")
  show "wf (measure (\<lambda>(s, sep). length s))" by simp
next
  fix s sep :: string and m :: nat
  assume sep: "sep \<noteq> []" and found: "Index s sep = Some m"
  have starts: "HasPrefix t p \<Longrightarrow> length p \<le> length t" for t p
    by (induction t p rule: HasPrefix.induct) auto
  have "Index t sep = Some k \<Longrightarrow> k + length sep \<le> length t" for t k
  proof (induction t arbitrary: k)
    case Nil
    then show ?case by (simp split: if_splits)
  next
    case (Cons c t)
    show ?case
    proof (cases "HasPrefix (c # t) sep")
      case True
      with Cons.prems starts [OF True] show ?thesis by simp
    next
      case False
      with Cons.prems obtain k' where "Index t sep = Some k'" "k = Suc k'" by auto
      with Cons.IH show ?thesis by fastforce
    qed
  qed
  from this [OF found] sep
  show "((drop (m + length sep) s, sep), (s, sep)) \<in> measure (\<lambda>(s, sep). length s)"
    by (cases sep) auto
qed

declare Split.simps [simp del]

text \<open>\<^verbatim>\<open>fmt.Sprintf("%d", n)\<close> for an unsigned number: its decimal digits.\<close>

definition digit :: "nat \<Rightarrow> char" where
  "digit d = ''0123456789'' ! d"

function decimal :: "nat \<Rightarrow> string" where
  "decimal n = (if n < 10 then [digit n] else decimal (n div 10) @ [digit (n mod 10)])"
  by pat_completeness auto
termination
  by (relation "measure id") auto

declare decimal.simps [simp del]

section \<open>Data model\<close>

text \<open>The structs of package \<^verbatim>\<open>gcp\<close>. A Go map that the code ranges over is an association
  list with distinct keys: assignment is \<^const>\<open>AList.update\<close>, lookup is \<^const>\<open>map_of\<close>, and
  \<^verbatim>\<open>range\<close> visits the pairs in list order (Go leaves the order open; the list order is
  one of the orders Go may take).\<close>

record User =
  Email :: string
  Type :: string

record Resource =
  ID :: string
  Name :: string
  Type :: string
  Location :: string
  IAM :: "(string \<times> string list) list"

record AccessEntry =
  UserEmail :: string
  ResourceID :: string
  ResourceName :: string
  ResourceType :: string
  Roles :: "string list"

record AccessMatrix =
  Users :: "User list"
  Resources :: "Resource list"
  Access :: "AccessEntry list"

text \<open>What the cloud APIs return: policy bindings, cluster, instance and service records,
  and the entries of the policy search (resource name and the bindings of its policy; an
  entry of the search always carries a policy).\<close>

record Binding =
  Role :: string
  Members :: "string list"

record Cluster =
  SelfLink :: string
  Name :: string
  Location :: string

record Instance =
  Id :: "64 word"
  Name :: string

record Service =
  Name :: string

record IamPolicySearchResult =
  Resource :: string
  Bindings :: "Binding list"

text \<open>The cause a collaborator reports, and the errors the backend returns: each
  \<^verbatim>\<open>fmt.Errorf\<close> wrapper is a constructor carrying the cause; indexing a slice out of range
  is a run-time panic.\<close>

type_synonym err = string

datatype error =
    GetIamPolicyFailed err
  | CreateAssetClientFailed err
  | IteratePoliciesFailed err
  | GetGKEClustersFailed err
  | GetVMsFailed err
  | GetCloudRunServicesFailed err
  | IndexOutOfRange

text \<open>The client: the project id and, for each API the backend calls, what that API answers.
  An iterator is the list of the results of its successive \<^verbatim>\<open>Next\<close> calls, the end of the
  list being \<^verbatim>\<open>iterator.Done\<close>. A per-resource policy is \<^const>\<open>None\<close> when the call fails or
  returns no policy.\<close>

record Client =
  ProjectID :: string
  GetIamPolicy :: "err + Binding list"
  ListClusters :: "err + Cluster list"
  ListInstances :: "string \<Rightarrow> (err + Instance) list"
  GetInstanceIamPolicy :: "string \<Rightarrow> string \<Rightarrow> Binding list option"
  ListServices :: "(err + Service) list"
  GetServiceIamPolicy :: "string \<Rightarrow> Binding list option"
  NewAssetClient :: "err option"
  SearchAllIamPolicies :: "(err + IamPolicySearchResult) list"

section \<open>Principals\<close>

definition parseUser :: "string \<Rightarrow> User" where
  "parseUser member =
     (if length member > 5 \<and> take 5 member = ''user:''
        then \<lparr>Email = drop 5 member, User.Type = ''user''\<rparr>
      else if length member > 15 \<and> take 15 member = ''serviceAccount:''
        then \<lparr>Email = drop 15 member, User.Type = ''serviceAccount''\<rparr>
      else if length member > 6 \<and> take 6 member = ''group:''
        then \<lparr>Email = drop 6 member, User.Type = ''group''\<rparr>
      else if length member > 7 \<and> take 7 member = ''domain:''
        then \<lparr>Email = drop 7 member, User.Type = ''domain''\<rparr>
      else \<lparr>Email = member, User.Type = ''other''\<rparr>)"

text \<open>\<^verbatim>\<open>GetUsers\<close>: the members of the project policy, one user per distinct member string.\<close>

fun addMembers :: "string list \<Rightarrow> (string \<times> User) list \<Rightarrow> (string \<times> User) list" where
  "addMembers [] usersMap = usersMap"
| "addMembers (member # ms) usersMap =
     addMembers ms
       (if map_of usersMap member = None
        then AList.update member (parseUser member) usersMap
        else usersMap)"

fun addBindings :: "Binding list \<Rightarrow> (string \<times> User) list \<Rightarrow> (string \<times> User) list" where
  "addBindings [] usersMap = usersMap"
| "addBindings (binding # bs) usersMap = addBindings bs (addMembers (Members binding) usersMap)"

definition GetUsers :: "Client \<Rightarrow> error + User list" where
  "GetUsers c =
     (case GetIamPolicy c of
        Inl e \<Rightarrow> Inl (GetIamPolicyFailed e)
      | Inr bindings \<Rightarrow> Inr (map snd (addBindings bindings [])))"

section \<open>Resource inventory\<close>

fun setBindings :: "Binding list \<Rightarrow> (string \<times> string list) list \<Rightarrow> (string \<times> string list) list" where
  "setBindings [] iam = iam"
| "setBindings (binding # bs) iam = setBindings bs (AList.update (Role binding) (Members binding) iam)"

definition clusterResource :: "Cluster \<Rightarrow> Resource" where
  "clusterResource cluster =
     \<lparr>ID = SelfLink cluster, Resource.Name = Cluster.Name cluster, Resource.Type = ''gke'',
      Resource.Location = Cluster.Location cluster,
      IAM = AList.update ''inherited'' [''project-level''] []\<rparr>"

definition getGKEClusters :: "Client \<Rightarrow> err + Resource list" where
  "getGKEClusters c =
     (case ListClusters c of
        Inl e \<Rightarrow> Inl e
      | Inr clusters \<Rightarrow> Inr (map clusterResource clusters))"

definition zones :: "string list" where
  "zones = [''us-central1-a'', ''us-central1-b'', ''us-east1-b'', ''us-west1-a'', ''europe-west1-b'']"

definition instanceResource :: "Client \<Rightarrow> string \<Rightarrow> Instance \<Rightarrow> Resource" where
  "instanceResource c zone instance =
     \<lparr>ID = decimal (unat (Id instance)), Resource.Name = Instance.Name instance,
      Resource.Type = ''vm'', Resource.Location = zone,
      IAM = (case GetInstanceIamPolicy c zone (Instance.Name instance) of
               None \<Rightarrow> []
             | Some bindings \<Rightarrow> setBindings bindings [])\<rparr>"

text \<open>The inner loop of \<^verbatim>\<open>getVMs\<close>: an error of \<^verbatim>\<open>Next\<close> leaves the loop of this zone.\<close>

fun listZone :: "Client \<Rightarrow> string \<Rightarrow> (err + Instance) list \<Rightarrow> Resource list \<Rightarrow> Resource list" where
  "listZone c zone [] resources = resources"
| "listZone c zone (Inl e # it) resources = resources"
| "listZone c zone (Inr instance # it) resources =
     listZone c zone it (resources @ [instanceResource c zone instance])"

fun listZones :: "Client \<Rightarrow> string list \<Rightarrow> Resource list \<Rightarrow> Resource list" where
  "listZones c [] resources = resources"
| "listZones c (zone # zs) resources =
     listZones c zs (listZone c zone (ListInstances c zone) resources)"

definition getVMs :: "Client \<Rightarrow> err + Resource list" where
  "getVMs c = Inr (listZones c zones [])"

definition extractLocation :: "string \<Rightarrow> string" where
  "extractLocation name = ''us-central1''"

definition serviceResource :: "Client \<Rightarrow> Service \<Rightarrow> Resource" where
  "serviceResource c service =
     \<lparr>ID = Service.Name service, Resource.Name = Service.Name service,
      Resource.Type = ''cloudrun'', Resource.Location = extractLocation (Service.Name service),
      IAM = (case GetServiceIamPolicy c (Service.Name service) of
               None \<Rightarrow> []
             | Some bindings \<Rightarrow> setBindings bindings [])\<rparr>"

fun listServices :: "Client \<Rightarrow> (err + Service) list \<Rightarrow> Resource list \<Rightarrow> err + Resource list" where
  "listServices c [] resources = Inr resources"
| "listServices c (Inl e # it) resources = Inl e"
| "listServices c (Inr service # it) resources =
     listServices c it (resources @ [serviceResource c service])"

definition getCloudRunServices :: "Client \<Rightarrow> err + Resource list" where
  "getCloudRunServices c = listServices c (ListServices c) []"

definition GetResources :: "Client \<Rightarrow> error + Resource list" where
  "GetResources c =
     (case getGKEClusters c of
        Inl e \<Rightarrow> Inl (GetGKEClustersFailed e)
      | Inr gkeClusters \<Rightarrow>
          (case getVMs c of
             Inl e \<Rightarrow> Inl (GetVMsFailed e)
           | Inr vms \<Rightarrow>
               (case getCloudRunServices c of
                  Inl e \<Rightarrow> Inl (GetCloudRunServicesFailed e)
                | Inr cloudRunServices \<Rightarrow> Inr (([] @ gkeClusters) @ vms @ cloudRunServices))))"

section \<open>Resource identifiers and roles\<close>

definition extractResourceName :: "string \<Rightarrow> string" where
  "extractResourceName resourceID =
     (let parts = Split resourceID ''/''
      in if length parts > 0 then last parts else resourceID)"

definition extractResourceType :: "string \<Rightarrow> string" where
  "extractResourceType resourceID =
     (if Contains resourceID ''cloudresourcemanager.googleapis.com/projects'' then ''project''
      else if Contains resourceID ''cloudresourcemanager.googleapis.com/organizations'' then ''organization''
      else if Contains resourceID ''compute.googleapis.com'' then ''vm''
      else if Contains resourceID ''container.googleapis.com'' then ''gke''
      else if Contains resourceID ''run.googleapis.com'' then ''cloudrun''
      else if Contains resourceID ''storage.googleapis.com'' then ''storage''
      else if Contains resourceID ''bigquery.googleapis.com'' then ''bigquery''
      else if Contains resourceID ''iam.googleapis.com'' then ''serviceaccount''
      else if HasPrefix resourceID ''//'' then
        (let parts = Split (drop 2 resourceID) ''/''
         in if length parts > 0 then
              (let serviceParts = Split (hd parts) ''.''
               in if length serviceParts > 0 then hd serviceParts else ''other'')
            else ''other'')
      else ''other'')"

definition getApplicableResourceTypes :: "string \<Rightarrow> string list" where
  "getApplicableResourceTypes role =
     (if Contains role ''roles/owner'' \<or> Contains role ''roles/editor'' \<or> Contains role ''roles/viewer''
        then [''storage'', ''vm'', ''gke'', ''cloudrun'', ''bigquery'', ''project'', ''serviceaccount'']
      else if Contains role ''roles/storage.'' then [''storage'']
      else if Contains role ''roles/compute.'' then [''vm'']
      else if Contains role ''roles/container.'' then [''gke'']
      else if Contains role ''roles/run.'' then [''cloudrun'']
      else if Contains role ''roles/bigquery.'' then [''bigquery'']
      else if Contains role ''roles/iam.'' then [''serviceaccount'']
      else [])"

fun contains :: "string list \<Rightarrow> string \<Rightarrow> bool" where
  "contains [] item = False"
| "contains (s # rest) item = (if s = item then True else contains rest item)"

section \<open>The access matrix\<close>

text \<open>The state that the policy loop of \<^verbatim>\<open>GetAccessMatrix\<close> updates: the user list, the
  set \<^verbatim>\<open>validUsers\<close> (a \<^verbatim>\<open>map[string]bool\<close> that is only read and set to true),
  and the two maps \<^verbatim>\<open>resourcesMap\<close> and \<^verbatim>\<open>accessMap\<close>.\<close>

record MatrixState =
  users :: "User list"
  validUsers :: "string set"
  resourcesMap :: "(string \<times> Resource) list"
  accessMap :: "(string \<times> AccessEntry) list"

text \<open>The key \<^verbatim>\<open>fmt.Sprintf("%s::%s::%s", userEmail, resourceID, role)\<close> of \<^verbatim>\<open>accessMap\<close>
  and the key \<^verbatim>\<open>fmt.Sprintf("%s::%s", userEmail, resourceID)\<close> of the grouping.\<close>

definition accessKey :: "string \<Rightarrow> string \<Rightarrow> string \<Rightarrow> string" where
  "accessKey userEmail resourceID role = userEmail @ ''::'' @ resourceID @ ''::'' @ role"

definition groupKey :: "string \<Rightarrow> string \<Rightarrow> string" where
  "groupKey userEmail resourceID = userEmail @ ''::'' @ resourceID"

text \<open>\<^verbatim>\<open>if _, exists := accessMap[key]; !exists { accessMap[key] = entry }\<close>\<close>

definition addAccess :: "string \<Rightarrow> AccessEntry \<Rightarrow> (string \<times> AccessEntry) list \<Rightarrow> (string \<times> AccessEntry) list" where
  "addAccess key entry am = (if map_of am key = None then AList.update key entry am else am)"

fun prepopulate :: "Resource list \<Rightarrow> (string \<times> Resource) list \<Rightarrow> (string \<times> Resource) list" where
  "prepopulate [] rm = rm"
| "prepopulate (res # rs) rm = prepopulate rs (AList.update (ID res) res rm)"

fun processMembers :: "string \<Rightarrow> string \<Rightarrow> string \<Rightarrow> string \<Rightarrow> string list \<Rightarrow> MatrixState \<Rightarrow> MatrixState" where
  "processMembers resourceID resourceName resourceType role [] st = st"
| "processMembers resourceID resourceName resourceType role (member # ms) st =
     (let user = parseUser member;
          st1 = (if Email user \<notin> validUsers st
                 then st\<lparr>validUsers := insert (Email user) (validUsers st), users := users st @ [user]\<rparr>
                 else st);
          key = accessKey (Email user) resourceID role
      in processMembers resourceID resourceName resourceType role ms
           (st1\<lparr>accessMap := addAccess key
              \<lparr>UserEmail = Email user, ResourceID = resourceID, ResourceName = resourceName,
               ResourceType = resourceType, Roles = [role]\<rparr> (accessMap st1)\<rparr>))"

fun processBindings :: "string \<Rightarrow> string \<Rightarrow> string \<Rightarrow> Binding list \<Rightarrow> MatrixState \<Rightarrow> MatrixState" where
  "processBindings resourceID resourceName resourceType [] st = st"
| "processBindings resourceID resourceName resourceType (binding # bs) st =
     processBindings resourceID resourceName resourceType bs
       (processMembers resourceID resourceName resourceType (Role binding) (Members binding) st)"

definition trackResource :: "string \<Rightarrow> (string \<times> Resource) list \<Rightarrow> (string \<times> Resource) list" where
  "trackResource resourceID rm =
     (if map_of rm resourceID = None
      then AList.update resourceID
             \<lparr>ID = resourceID, Resource.Name = extractResourceName resourceID,
              Resource.Type = extractResourceType resourceID, Resource.Location = ''global'',
              IAM = []\<rparr> rm
      else rm)"

definition processPolicy :: "IamPolicySearchResult \<Rightarrow> MatrixState \<Rightarrow> MatrixState" where
  "processPolicy policy st =
     (let resourceID = Resource policy;
          resourceName = extractResourceName resourceID;
          resourceType = extractResourceType resourceID
      in processBindings resourceID resourceName resourceType (Bindings policy)
           (st\<lparr>resourcesMap := trackResource resourceID (resourcesMap st)\<rparr>))"

text \<open>The loop over the policy search: the end of the iterator ends the loop, an error of
  \<^verbatim>\<open>Next\<close> returns from \<^verbatim>\<open>GetAccessMatrix\<close> with that error.\<close>

fun searchPolicies :: "(err + IamPolicySearchResult) list \<Rightarrow> MatrixState \<Rightarrow> error + MatrixState" where
  "searchPolicies [] st = Inr st"
| "searchPolicies (Inl e # it) st = Inl (IteratePoliciesFailed e)"
| "searchPolicies (Inr policy # it) st = searchPolicies it (processPolicy policy st)"

text \<open>Step 2 of \<^verbatim>\<open>GetAccessMatrix\<close>: the roles held on the project itself, per user, and the
  entries they give on the other tracked resources. Reading a key that a
  \<^verbatim>\<open>map[string][]string\<close> does not hold gives the empty slice.\<close>

definition rolesOf :: "(string \<times> string list) list \<Rightarrow> string \<Rightarrow> string list" where
  "rolesOf m key = (case map_of m key of None \<Rightarrow> [] | Some roles \<Rightarrow> roles)"

fun collectProjectAccess :: "string \<Rightarrow> (string \<times> AccessEntry) list \<Rightarrow> (string \<times> string list) list
    \<Rightarrow> error + (string \<times> string list) list" where
  "collectProjectAccess projectResourceID [] pa = Inr pa"
| "collectProjectAccess projectResourceID ((key, entry) # am) pa =
     (if ResourceID entry = projectResourceID then
        (case Roles entry of
           [] \<Rightarrow> Inl IndexOutOfRange
         | role # _ \<Rightarrow>
             collectProjectAccess projectResourceID am
               (AList.update (UserEmail entry) (rolesOf pa (UserEmail entry) @ [role]) pa))
      else collectProjectAccess projectResourceID am pa)"

fun inheritResources :: "string \<Rightarrow> string \<Rightarrow> string \<Rightarrow> string list \<Rightarrow> (string \<times> Resource) list
    \<Rightarrow> (string \<times> AccessEntry) list \<Rightarrow> (string \<times> AccessEntry) list" where
  "inheritResources projectResourceID userEmail role applicableTypes [] am = am"
| "inheritResources projectResourceID userEmail role applicableTypes ((resourceID, resource) # rm) am =
     inheritResources projectResourceID userEmail role applicableTypes rm
       (if resourceID = projectResourceID then am
        else if contains applicableTypes (Resource.Type resource) then
          addAccess (accessKey userEmail resourceID role)
            \<lparr>UserEmail = userEmail, ResourceID = resourceID, ResourceName = Resource.Name resource,
             ResourceType = Resource.Type resource, Roles = [role]\<rparr> am
        else am)"

fun inheritRoles :: "string \<Rightarrow> string \<Rightarrow> string list \<Rightarrow> (string \<times> Resource) list
    \<Rightarrow> (string \<times> AccessEntry) list \<Rightarrow> (string \<times> AccessEntry) list" where
  "inheritRoles projectResourceID userEmail [] rm am = am"
| "inheritRoles projectResourceID userEmail (role # roles) rm am =
     inheritRoles projectResourceID userEmail roles rm
       (inheritResources projectResourceID userEmail role (getApplicableResourceTypes role) rm am)"

fun inheritUsers :: "string \<Rightarrow> (string \<times> string list) list \<Rightarrow> (string \<times> Resource) list
    \<Rightarrow> (string \<times> AccessEntry) list \<Rightarrow> (string \<times> AccessEntry) list" where
  "inheritUsers projectResourceID [] rm am = am"
| "inheritUsers projectResourceID ((userEmail, roles) # pa) rm am =
     inheritUsers projectResourceID pa rm (inheritRoles projectResourceID userEmail roles rm am)"

definition resolveInherited :: "string \<Rightarrow> (string \<times> Resource) list \<Rightarrow> (string \<times> AccessEntry) list
    \<Rightarrow> error + (string \<times> AccessEntry) list" where
  "resolveInherited projectResourceID rm am =
     (case collectProjectAccess projectResourceID am [] of
        Inl e \<Rightarrow> Inl e
      | Inr projectAccessByUser \<Rightarrow> Inr (inheritUsers projectResourceID projectAccessByUser rm am))"

text \<open>The grouping of the roles per user and resource, and the entries built from the
  groups: the key is split at \<^verbatim>\<open>::\<close> again, a key that does not give two parts is skipped,
  and so is one whose second part is not a tracked resource.\<close>

fun groupRoles :: "(string \<times> AccessEntry) list \<Rightarrow> (string \<times> string list) list
    \<Rightarrow> error + (string \<times> string list) list" where
  "groupRoles [] urr = Inr urr"
| "groupRoles ((k, entry) # am) urr =
     (let key = groupKey (UserEmail entry) (ResourceID entry)
      in case Roles entry of
           [] \<Rightarrow> Inl IndexOutOfRange
         | role # _ \<Rightarrow> groupRoles am (AList.update key (rolesOf urr key @ [role]) urr))"

fun buildEntries :: "(string \<times> string list) list \<Rightarrow> (string \<times> Resource) list \<Rightarrow> AccessEntry list
    \<Rightarrow> AccessEntry list" where
  "buildEntries [] rm accessEntries = accessEntries"
| "buildEntries ((key, roles) # urr) rm accessEntries =
     buildEntries urr rm
       (case Split key ''::'' of
          [userEmail, resourceID] \<Rightarrow>
            (case map_of rm resourceID of
               None \<Rightarrow> accessEntries
             | Some resource \<Rightarrow>
                 accessEntries @
                   [\<lparr>UserEmail = userEmail, ResourceID = resourceID,
                     ResourceName = Resource.Name resource, ResourceType = Resource.Type resource,
                     Roles = roles\<rparr>])
        | _ \<Rightarrow> accessEntries)"

definition projectResourceID :: "Client \<Rightarrow> string" where
  "projectResourceID c = ''//cloudresourcemanager.googleapis.com/projects/'' @ ProjectID c"

definition knownResourcesMap :: "Client \<Rightarrow> (string \<times> Resource) list" where
  "knownResourcesMap c =
     (case GetResources c of
        Inr knownResources \<Rightarrow> prepopulate knownResources []
      | Inl e \<Rightarrow> [])"

definition GetAccessMatrix :: "Client \<Rightarrow> error + AccessMatrix" where
  "GetAccessMatrix c =
     (case GetUsers c of
        Inl e \<Rightarrow> Inl e
      | Inr users0 \<Rightarrow>
          (case NewAssetClient c of
             Some e \<Rightarrow> Inl (CreateAssetClientFailed e)
           | None \<Rightarrow>
               (case searchPolicies (SearchAllIamPolicies c)
                       \<lparr>users = users0, validUsers = set (map Email users0),
                        resourcesMap = knownResourcesMap c, accessMap = []\<rparr> of
                  Inl e \<Rightarrow> Inl e
                | Inr st \<Rightarrow>
                    (case resolveInherited (projectResourceID c) (resourcesMap st) (accessMap st) of
                       Inl e \<Rightarrow> Inl e
                     | Inr am \<Rightarrow>
                         (case groupRoles am [] of
                            Inl e \<Rightarrow> Inl e
                          | Inr userResourceRoles \<Rightarrow>
                              Inr \<lparr>Users = users st, Resources = map snd (resourcesMap st),
                                   Access = buildEntries userResourceRoles (resourcesMap st) []\<rparr>)))))"

section \<open>Notions used in the proofs\<close>

text \<open>Every entry of \<^verbatim>\<open>accessMap\<close> is built with exactly one role, so \<^verbatim>\<open>entry.Roles[0]\<close>
  is always in range.\<close>

definition hasRole :: "string \<times> AccessEntry \<Rightarrow> bool" where
  "hasRole p = (Roles (snd p) \<noteq> [])"

text \<open>The inheritance step only appends entries, under keys that were free, for resources
  other than the project, each with one role and under the key of its own user, resource
  and role.\<close>

definition grows :: "string \<Rightarrow> (string \<times> AccessEntry) list \<Rightarrow> (string \<times> AccessEntry) list \<Rightarrow> bool" where
  "grows pid am am' =
     (\<exists>added. am' = am @ added \<and>
        (\<forall>p\<in>set added.
           fst p \<notin> fst ` set am \<and> ResourceID (snd p) \<noteq> pid \<and> Roles (snd p) \<noteq> [] \<and>
           fst p = accessKey (UserEmail (snd p)) (ResourceID (snd p)) (hd (Roles (snd p)))))"

text \<open>The keys that one user's role asks for on the tracked resources.\<close>

definition inheritedKeys :: "string \<Rightarrow> string \<Rightarrow> string \<Rightarrow> string list \<Rightarrow> (string \<times> Resource) list \<Rightarrow> string set" where
  "inheritedKeys pid userEmail role types rm =
     {accessKey userEmail (fst p) role | p.
        p \<in> set rm \<and> fst p \<noteq> pid \<and> contains types (Resource.Type (snd p))}"

text \<open>The roles held on the project, as pairs of user and role, are those of the entries of
  the project resource, in whatever order the entries are visited.\<close>

definition projectGrants :: "string \<Rightarrow> (string \<times> AccessEntry) list \<Rightarrow> (string \<times> string) set" where
  "projectGrants pid am =
     {(UserEmail (snd p), hd (Roles (snd p))) | p. p \<in> set am \<and> ResourceID (snd p) = pid}"

definition grantsOf :: "(string \<times> string list) list \<Rightarrow> (string \<times> string) set" where
  "grantsOf pa = {(u, r). r \<in> set (rolesOf pa u)}"

text \<open>\<^verbatim>\<open>usersMap\<close> of \<^verbatim>\<open>GetUsers\<close> has one key per member string, each with its parsed user.\<close>

definition parsedMap :: "(string \<times> User) list \<Rightarrow> bool" where
  "parsedMap um = (distinct (map fst um) \<and> (\<forall>p\<in>set um. snd p = parseUser (fst p)))"

text \<open>The policy loop appends a user only when its email is not yet in \<^verbatim>\<open>validUsers\<close>.\<close>

definition usersExtend :: "MatrixState \<Rightarrow> MatrixState \<Rightarrow> bool" where
  "usersExtend st st' =
     (\<exists>added. users st' = users st @ added \<and> distinct (map Email added) \<and>
        Email ` set added \<inter> validUsers st = {} \<and>
        validUsers st' = validUsers st \<union> Email ` set added)"

text \<open>The emails of the entries of \<^verbatim>\<open>accessMap\<close> are emails of listed users.\<close>

definition emailsIn :: "string set \<Rightarrow> (string \<times> AccessEntry) list \<Rightarrow> bool" where
  "emailsIn E am = (\<forall>p\<in>set am. UserEmail (snd p) \<in> E)"

definition usersListed :: "MatrixState \<Rightarrow> bool" where
  "usersListed st = (validUsers st = Email ` set (users st) \<and> emailsIn (validUsers st) (accessMap st))"

text \<open>The kind of an identifier in words of lists: the first of the listed strings that
  occurs anywhere in the identifier decides; failing that, an identifier that begins with
  \<^verbatim>\<open>//\<close> has as kind the first label of its service segment, the text after \<^verbatim>\<open>//\<close> up to
  the first dot or slash; any other identifier is of kind \<^verbatim>\<open>other\<close>.\<close>

definition kindOfIdentifier :: "string \<Rightarrow> string" where
  "kindOfIdentifier resourceID =
     (if sublist ''cloudresourcemanager.googleapis.com/projects'' resourceID then ''project''
      else if sublist ''cloudresourcemanager.googleapis.com/organizations'' resourceID then ''organization''
      else if sublist ''compute.googleapis.com'' resourceID then ''vm''
      else if sublist ''container.googleapis.com'' resourceID then ''gke''
      else if sublist ''run.googleapis.com'' resourceID then ''cloudrun''
      else if sublist ''storage.googleapis.com'' resourceID then ''storage''
      else if sublist ''bigquery.googleapis.com'' resourceID then ''bigquery''
      else if sublist ''iam.googleapis.com'' resourceID then ''serviceaccount''
      else if prefix ''//'' resourceID
        then takeWhile (\<lambda>ch. ch \<noteq> CHR ''.'' \<and> ch \<noteq> CHR ''/'') (drop 2 resourceID)
      else ''other'')"

text \<open>The users that a list of parsed members adds to a user list whose emails are
  \<open>seen\<close>: each user whose email has not been met yet, at its first occurrence. The members
  of a policy and of the whole policy search, in the order the loops visit them.\<close>

fun newUsers :: "string set \<Rightarrow> User list \<Rightarrow> User list" where
  "newUsers seen [] = []"
| "newUsers seen (user # us) =
     (if Email user \<in> seen then newUsers seen us
      else user # newUsers (insert (Email user) seen) us)"

definition policyMembers :: "IamPolicySearchResult \<Rightarrow> string list" where
  "policyMembers policy = concat (map Members (Bindings policy))"

definition streamMembers :: "(err + IamPolicySearchResult) list \<Rightarrow> string list" where
  "streamMembers it =
     concat (map (\<lambda>x. case x of Inl e \<Rightarrow> [] | Inr policy \<Rightarrow> policyMembers policy) it)"

section \<open>Example projects\<close>

text \<open>A project with no bindings, no resources and no policies, all of whose APIs answer;
  the examples below change one field at a time.\<close>

definition emptyProject :: Client where
  "emptyProject =
     \<lparr>ProjectID = ''p'', GetIamPolicy = Inr [], ListClusters = Inr [],
      ListInstances = (\<lambda>zone. []), GetInstanceIamPolicy = (\<lambda>zone name. None),
      ListServices = [], GetServiceIamPolicy = (\<lambda>name. None), NewAssetClient = None,
      SearchAllIamPolicies = []\<rparr>"

text \<open>The project policy names Alice as a user; the policy of a bucket names a group with
  Alice's address, Bob as a user and a service account with Bob's address.\<close>

definition sharedAddresses :: Client where
  "sharedAddresses = emptyProject
     \<lparr>GetIamPolicy := Inr [\<lparr>Role = ''roles/editor'', Members = [''user:alice@example.com'']\<rparr>],
      SearchAllIamPolicies :=
        [Inr \<lparr>Resource = ''//storage.googleapis.com/b'',
              Bindings = [\<lparr>Role = ''roles/storage.objectViewer'',
                           Members = [''group:alice@example.com'', ''user:bob@example.com'',
                                      ''serviceAccount:bob@example.com'']\<rparr>]\<rparr>]\<rparr>"

text \<open>An example for the inheritance step: the project, a VM of the inventory and a
  bucket; a user holding \<^verbatim>\<open>roles/editor\<close> on the project and, directly, on the bucket.\<close>

definition exampleResources :: "(string \<times> Resource) list" where
  "exampleResources =
     [(''//cloudresourcemanager.googleapis.com/projects/p'',
       \<lparr>ID = ''//cloudresourcemanager.googleapis.com/projects/p'', Resource.Name = ''p'',
        Resource.Type = ''project'', Resource.Location = ''global'', IAM = []\<rparr>),
      (''42'',
       \<lparr>ID = ''42'', Resource.Name = ''vm-1'', Resource.Type = ''vm'',
        Resource.Location = ''us-central1-a'', IAM = []\<rparr>),
      (''//storage.googleapis.com/b'',
       \<lparr>ID = ''//storage.googleapis.com/b'', Resource.Name = ''b'', Resource.Type = ''storage'',
        Resource.Location = ''global'', IAM = []\<rparr>)]"

definition exampleAccess :: "(string \<times> AccessEntry) list" where
  "exampleAccess =
     [(''alice@example.com:://cloudresourcemanager.googleapis.com/projects/p::roles/editor'',
       \<lparr>UserEmail = ''alice@example.com'',
        ResourceID = ''//cloudresourcemanager.googleapis.com/projects/p'',
        ResourceName = ''p'', ResourceType = ''project'', Roles = [''roles/editor'']\<rparr>),
      (''alice@example.com:://storage.googleapis.com/b::roles/editor'',
       \<lparr>UserEmail = ''alice@example.com'', ResourceID = ''//storage.googleapis.com/b'',
        ResourceName = ''b'', ResourceType = ''storage'', Roles = [''roles/editor'']\<rparr>)]"

definition exampleInherited :: "(string \<times> AccessEntry) list" where
  "exampleInherited =
     [(''alice@example.com::42::roles/editor'',
       \<lparr>UserEmail = ''alice@example.com'', ResourceID = ''42'',
        ResourceName = ''vm-1'', ResourceType = ''vm'', Roles = [''roles/editor'']\<rparr>)]"

text \<open>A project in which one user holds a role on the project only, which the VM of the
  inventory and a bucket inherit, and another user holds a role on the bucket only.\<close>

definition inheritedAndScoped :: Client where
  "inheritedAndScoped = emptyProject
     \<lparr>GetIamPolicy := Inr [\<lparr>Role = ''roles/editor'', Members = [''user:alice@example.com'']\<rparr>],
      ListInstances := (\<lambda>zone. if zone = ''us-central1-a''
                                then [Inr \<lparr>Id = 42, Instance.Name = ''vm-1''\<rparr>] else []),
      SearchAllIamPolicies :=
        [Inr \<lparr>Resource = ''//cloudresourcemanager.googleapis.com/projects/p'',
              Bindings = [\<lparr>Role = ''roles/editor'', Members = [''user:alice@example.com'']\<rparr>]\<rparr>,
         Inr \<lparr>Resource = ''//storage.googleapis.com/b'',
              Bindings = [\<lparr>Role = ''roles/storage.objectViewer'',
                           Members = [''user:bob@example.com'']\<rparr>]\<rparr>]\<rparr>"

definition inheritedAndScopedMatrix :: AccessMatrix where
  "inheritedAndScopedMatrix =
     \<lparr>Users = [\<lparr>Email = ''alice@example.com'', User.Type = ''user''\<rparr>,
               \<lparr>Email = ''bob@example.com'', User.Type = ''user''\<rparr>],
      Resources =
        [\<lparr>ID = ''42'', Resource.Name = ''vm-1'', Resource.Type = ''vm'',
          Resource.Location = ''us-central1-a'', IAM = []\<rparr>,
         \<lparr>ID = ''//cloudresourcemanager.googleapis.com/projects/p'', Resource.Name = ''p'',
          Resource.Type = ''project'', Resource.Location = ''global'', IAM = []\<rparr>,
         \<lparr>ID = ''//storage.googleapis.com/b'', Resource.Name = ''b'',
          Resource.Type = ''storage'', Resource.Location = ''global'', IAM = []\<rparr>],
      Access =
        [\<lparr>UserEmail = ''alice@example.com'',
          ResourceID = ''//cloudresourcemanager.googleapis.com/projects/p'',
          ResourceName = ''p'', ResourceType = ''project'', Roles = [''roles/editor'']\<rparr>,
         \<lparr>UserEmail = ''bob@example.com'', ResourceID = ''//storage.googleapis.com/b'',
          ResourceName = ''b'', ResourceType = ''storage'',
          Roles = [''roles/storage.objectViewer'']\<rparr>,
         \<lparr>UserEmail = ''alice@example.com'', ResourceID = ''42'',
          ResourceName = ''vm-1'', ResourceType = ''vm'', Roles = [''roles/editor'']\<rparr>,
         \<lparr>UserEmail = ''alice@example.com'', ResourceID = ''//storage.googleapis.com/b'',
          ResourceName = ''b'', ResourceType = ''storage'', Roles = [''roles/editor'']\<rparr>]\<rparr>"

section \<open>Facts about the string functions\<close>

lemma Split_None [simp]: "sep \<noteq> [] \<Longrightarrow> Index s sep = None \<Longrightarrow> Split s sep = [s]"
  by (subst Split.simps) simp

lemma Split_Some [simp]:
  "sep \<noteq> [] \<Longrightarrow> Index s sep = Some m \<Longrightarrow>
   Split s sep = take m s # Split (drop (m + length sep) s) sep"
  by (subst Split.simps) simp

lemma HasPrefix_prefix: "HasPrefix s p = prefix p s"
  by (induction s p rule: HasPrefix.induct) auto

lemma Contains_Nil [simp]: "Contains [] substr = (substr = [])"
  by (simp add: Contains_def)

lemma Contains_Cons: "Contains (c # s) substr = (HasPrefix (c # s) substr \<or> Contains s substr)"
  by (simp add: Contains_def)

lemma Contains_sublist: "Contains s substr = sublist substr s"
proof (induction s)
  case Nil
  show ?case by simp
next
  case (Cons c s)
  show ?case
    by (simp only: Contains_Cons Cons.IH HasPrefix_prefix sublist_Cons_right)
qed

lemma contains_set: "contains xs item = (item \<in> set xs)"
  by (induction xs) auto

lemma Index_single:
  "Index s [c] = (if c \<in> set s then Some (length (takeWhile (\<lambda>x. x \<noteq> c) s)) else None)"
  by (induction s) auto

lemma Split_without_separator: "c \<notin> set s \<Longrightarrow> Split s [c] = [s]"
  by (simp add: Index_single)

lemma Split_not_Nil: "sep \<noteq> [] \<Longrightarrow> Split s sep \<noteq> []"
  by (subst Split.simps) (simp split: option.splits)

lemma Split_first_separator:
  "c \<notin> set p1 \<Longrightarrow> Split (p1 @ c # rest) [c] = p1 # Split rest [c]"
proof -
  assume c: "c \<notin> set p1"
  then have "takeWhile (\<lambda>x. x \<noteq> c) (p1 @ c # rest) = p1"
    by (induction p1) auto
  then have "Index (p1 @ c # rest) [c] = Some (length p1)"
    by (simp add: Index_single)
  then show ?thesis by simp
qed

lemma last_Split:
  "c \<notin> set name \<Longrightarrow> last (Split (pre @ c # name) [c]) = name"
proof (induction pre rule: length_induct)
  case (1 pre)
  show ?case
  proof (cases "c \<in> set pre")
    case False
    from Split_first_separator [OF False, of name] Split_without_separator [OF 1(2)]
    show ?thesis by simp
  next
    case True
    then obtain p1 p2 where pre: "pre = p1 @ c # p2" and p1: "c \<notin> set p1"
      by (auto dest: split_list_first)
    have "length p2 < length pre" by (simp add: pre)
    with 1 have "last (Split (p2 @ c # name) [c]) = name" by blast
    moreover have "Split (pre @ c # name) [c] = p1 # Split (p2 @ c # name) [c]"
      using Split_first_separator [OF p1, of "p2 @ c # name"] by (simp add: pre)
    ultimately show ?thesis by (simp add: Split_not_Nil)
  qed
qed

lemma hd_Split_single: "hd (Split s [c]) = takeWhile (\<lambda>x. x \<noteq> c) s"
proof (cases "c \<in> set s")
  case True
  then have "Index s [c] = Some (length (takeWhile (\<lambda>x. x \<noteq> c) s))"
    by (simp add: Index_single)
  then have "hd (Split s [c]) = take (length (takeWhile (\<lambda>x. x \<noteq> c) s)) s"
    by simp
  also have "\<dots> = takeWhile (\<lambda>x. x \<noteq> c) s"
    by (rule takeWhile_eq_take [symmetric])
  finally show ?thesis .
next
  case False
  then have "takeWhile (\<lambda>x. x \<noteq> c) s = s" by (induction s) auto
  then show ?thesis by (simp only: Split_without_separator [OF False] list.sel)
qed

lemma takeWhile_takeWhile:
  "takeWhile P (takeWhile Q s) = takeWhile (\<lambda>x. P x \<and> Q x) s"
  by (induction s) auto

lemma extractResourceType_kindOfIdentifier:
  "extractResourceType resourceID = kindOfIdentifier resourceID"
  by (simp add: extractResourceType_def kindOfIdentifier_def Contains_sublist HasPrefix_prefix
      Split_not_Nil hd_Split_single takeWhile_takeWhile Let_def)

section \<open>The principal parser\<close>

text \<open>
  Claim C10. \<^verbatim>\<open>parseUser\<close> is defined on every string. A member string that is exactly a
  known prefix, such as the five characters \<^verbatim>\<open>user:\<close> or the six characters \<^verbatim>\<open>group:\<close>, is
  of type \<^verbatim>\<open>other\<close> with the whole string as its email: each of the four prefixes matches
  only when at least one character follows it, and then the rest is the email. A string
  that none of the four prefixes starts is of type \<^verbatim>\<open>other\<close> with itself as email.
\<close>

theorem parseUser_needs_identifier:
  "parseUser ''user:'' = \<lparr>Email = ''user:'', User.Type = ''other''\<rparr> \<and>
   parseUser ''group:'' = \<lparr>Email = ''group:'', User.Type = ''other''\<rparr> \<and>
   (\<forall>email. parseUser (''user:'' @ email) =
      (if email = [] then \<lparr>Email = ''user:'', User.Type = ''other''\<rparr>
       else \<lparr>Email = email, User.Type = ''user''\<rparr>)) \<and>
   (\<forall>email. parseUser (''serviceAccount:'' @ email) =
      (if email = [] then \<lparr>Email = ''serviceAccount:'', User.Type = ''other''\<rparr>
       else \<lparr>Email = email, User.Type = ''serviceAccount''\<rparr>)) \<and>
   (\<forall>email. parseUser (''group:'' @ email) =
      (if email = [] then \<lparr>Email = ''group:'', User.Type = ''other''\<rparr>
       else \<lparr>Email = email, User.Type = ''group''\<rparr>)) \<and>
   (\<forall>email. parseUser (''domain:'' @ email) =
      (if email = [] then \<lparr>Email = ''domain:'', User.Type = ''other''\<rparr>
       else \<lparr>Email = email, User.Type = ''domain''\<rparr>)) \<and>
   (\<forall>member. parseUser member = \<lparr>Email = member, User.Type = ''other''\<rparr> \<or>
      HasPrefix member ''user:'' \<or> HasPrefix member ''serviceAccount:'' \<or>
      HasPrefix member ''group:'' \<or> HasPrefix member ''domain:'')"
proof (intro conjI allI)
  show "parseUser ''user:'' = \<lparr>Email = ''user:'', User.Type = ''other''\<rparr>"
    by (simp add: parseUser_def)
  show "parseUser ''group:'' = \<lparr>Email = ''group:'', User.Type = ''other''\<rparr>"
    by (simp add: parseUser_def)
next
  fix email
  show "parseUser (''user:'' @ email) =
      (if email = [] then \<lparr>Email = ''user:'', User.Type = ''other''\<rparr>
       else \<lparr>Email = email, User.Type = ''user''\<rparr>)"
    by (simp add: parseUser_def)
  show "parseUser (''serviceAccount:'' @ email) =
      (if email = [] then \<lparr>Email = ''serviceAccount:'', User.Type = ''other''\<rparr>
       else \<lparr>Email = email, User.Type = ''serviceAccount''\<rparr>)"
    by (simp add: parseUser_def)
  show "parseUser (''group:'' @ email) =
      (if email = [] then \<lparr>Email = ''group:'', User.Type = ''other''\<rparr>
       else \<lparr>Email = email, User.Type = ''group''\<rparr>)"
    by (simp add: parseUser_def)
  show "parseUser (''domain:'' @ email) =
      (if email = [] then \<lparr>Email = ''domain:'', User.Type = ''other''\<rparr>
       else \<lparr>Email = email, User.Type = ''domain''\<rparr>)"
    by (simp add: parseUser_def)
next
  fix member
  have p: "\<And>n p. take n member = p \<Longrightarrow> length p = n \<Longrightarrow> HasPrefix member p"
    by (metis HasPrefix_prefix take_is_prefix)
  show "parseUser member = \<lparr>Email = member, User.Type = ''other''\<rparr> \<or>
      HasPrefix member ''user:'' \<or> HasPrefix member ''serviceAccount:'' \<or>
      HasPrefix member ''group:'' \<or> HasPrefix member ''domain:''"
    unfolding parseUser_def
    by (auto dest!: p)
qed

section \<open>Roles that cascade\<close>

lemma contains_Nil_types: "getApplicableResourceTypes role = [] \<Longrightarrow>
  inheritResources pid userEmail role (getApplicableResourceTypes role) rm am = am"
  by (induction rm arbitrary: am) auto

text \<open>
  Claim C7, as the code has it. \<^verbatim>\<open>getApplicableResourceTypes\<close> looks for the listed strings
  anywhere in the role (\<^verbatim>\<open>strings.Contains\<close>), not at its start. A role that holds none of
  \<^verbatim>\<open>roles/owner\<close>, \<^verbatim>\<open>roles/editor\<close>, \<^verbatim>\<open>roles/viewer\<close>, \<^verbatim>\<open>roles/storage.\<close>,
  \<^verbatim>\<open>roles/compute.\<close>, \<^verbatim>\<open>roles/container.\<close>, \<^verbatim>\<open>roles/run.\<close>, \<^verbatim>\<open>roles/bigquery.\<close>,
  \<^verbatim>\<open>roles/iam.\<close> as a substring applies to no resource type, and a project-level grant of
  it adds no entry for any resource, whatever the tracked resources are.
\<close>

theorem role_without_listed_substring_does_not_cascade:
  assumes "\<not> sublist ''roles/owner'' role" and "\<not> sublist ''roles/editor'' role"
    and "\<not> sublist ''roles/viewer'' role" and "\<not> sublist ''roles/storage.'' role"
    and "\<not> sublist ''roles/compute.'' role" and "\<not> sublist ''roles/container.'' role"
    and "\<not> sublist ''roles/run.'' role" and "\<not> sublist ''roles/bigquery.'' role"
    and "\<not> sublist ''roles/iam.'' role"
  shows "getApplicableResourceTypes role = [] \<and>
         inheritRoles pid userEmail [role] rm am = am"
proof -
  from assms have none: "getApplicableResourceTypes role = []"
    by (simp add: getApplicableResourceTypes_def Contains_sublist)
  from contains_Nil_types [OF none] none show ?thesis by simp
qed

text \<open>The scenario of the specification: \<^verbatim>\<open>roles/pubsub.publisher\<close> held on the project
  gives nothing on a storage bucket.\<close>

theorem pubsub_publisher_does_not_cascade:
  "getApplicableResourceTypes ''roles/pubsub.publisher'' = [] \<and>
   inheritRoles ''//cloudresourcemanager.googleapis.com/projects/p'' ''alice@example.com''
     [''roles/pubsub.publisher'']
     [(''//storage.googleapis.com/b'',
       \<lparr>ID = ''//storage.googleapis.com/b'', Resource.Name = ''b'', Resource.Type = ''storage'',
        Resource.Location = ''global'', IAM = []\<rparr>)] [] = []"
  using role_without_listed_substring_does_not_cascade
    [of "''roles/pubsub.publisher''" "''//cloudresourcemanager.googleapis.com/projects/p''"
        "''alice@example.com''" _ "[]"]
  by (simp add: Contains_sublist [symmetric] Contains_def)

text \<open>With prefixes in place of substrings the statement fails: the custom role
  \<^verbatim>\<open>projects/p/roles/viewerPlus\<close> starts with none of the listed strings, yet it holds
  \<^verbatim>\<open>roles/viewer\<close>, applies to all seven types and is inherited by a bucket.\<close>

theorem custom_role_cascades:
  "\<not> prefix ''roles/owner'' ''projects/p/roles/viewerPlus'' \<and>
   \<not> prefix ''roles/editor'' ''projects/p/roles/viewerPlus'' \<and>
   \<not> prefix ''roles/viewer'' ''projects/p/roles/viewerPlus'' \<and>
   \<not> prefix ''roles/storage.'' ''projects/p/roles/viewerPlus'' \<and>
   \<not> prefix ''roles/compute.'' ''projects/p/roles/viewerPlus'' \<and>
   \<not> prefix ''roles/container.'' ''projects/p/roles/viewerPlus'' \<and>
   \<not> prefix ''roles/run.'' ''projects/p/roles/viewerPlus'' \<and>
   \<not> prefix ''roles/bigquery.'' ''projects/p/roles/viewerPlus'' \<and>
   \<not> prefix ''roles/iam.'' ''projects/p/roles/viewerPlus'' \<and>
   getApplicableResourceTypes ''projects/p/roles/viewerPlus'' =
     [''storage'', ''vm'', ''gke'', ''cloudrun'', ''bigquery'', ''project'', ''serviceaccount''] \<and>
   inheritRoles ''//cloudresourcemanager.googleapis.com/projects/p'' ''alice@example.com''
     [''projects/p/roles/viewerPlus'']
     [(''//storage.googleapis.com/b'',
       \<lparr>ID = ''//storage.googleapis.com/b'', Resource.Name = ''b'', Resource.Type = ''storage'',
        Resource.Location = ''global'', IAM = []\<rparr>)] [] =
     [(''alice@example.com:://storage.googleapis.com/b::projects/p/roles/viewerPlus'',
       \<lparr>UserEmail = ''alice@example.com'', ResourceID = ''//storage.googleapis.com/b'',
        ResourceName = ''b'', ResourceType = ''storage'',
        Roles = [''projects/p/roles/viewerPlus'']\<rparr>)]"
  by (simp add: getApplicableResourceTypes_def Contains_def addAccess_def accessKey_def)

section \<open>Resources first seen in the policy search\<close>

lemma processMembers_resourcesMap [simp]:
  "resourcesMap (processMembers resourceID resourceName resourceType role ms st) = resourcesMap st"
  by (induction ms arbitrary: st) (simp_all add: Let_def)

lemma processBindings_resourcesMap [simp]:
  "resourcesMap (processBindings resourceID resourceName resourceType bs st) = resourcesMap st"
  by (induction bs arbitrary: st) simp_all

text \<open>
  Claim C9, as the code has it. When the policy loop meets an entry whose resource id is
  not a key of \<^verbatim>\<open>resourcesMap\<close>, the resource it stores under that id has the location
  \<^verbatim>\<open>global\<close>, and its kind is not read off the service segment alone: the first of the
  listed service strings that occurs anywhere in the id decides the kind; when none occurs,
  an id that begins with \<^verbatim>\<open>//\<close> has the first label of its service segment as kind, and
  any other id the kind \<^verbatim>\<open>other\<close>. The resource has the id itself, the name
  \<^verbatim>\<open>extractResourceName\<close> gives, and no IAM bindings.
\<close>

theorem untracked_resource_created_global:
  assumes "map_of (resourcesMap st) (Resource policy) = None"
  shows "map_of (resourcesMap (processPolicy policy st)) (Resource policy) =
         Some \<lparr>ID = Resource policy, Resource.Name = extractResourceName (Resource policy),
               Resource.Type = kindOfIdentifier (Resource policy),
               Resource.Location = ''global'', IAM = []\<rparr>"
  using assms
  by (simp add: processPolicy_def trackResource_def Let_def update_conv'
      extractResourceType_kindOfIdentifier)

theorem untracked_resource_created_global_witness:
  "map_of (resourcesMap \<lparr>users = [], validUsers = {}, resourcesMap = [], accessMap = []\<rparr>)
      (Resource \<lparr>Resource = ''//storage.googleapis.com/b'', Bindings = []\<rparr>) = None \<and>
   map_of (resourcesMap (processPolicy \<lparr>Resource = ''//storage.googleapis.com/b'', Bindings = []\<rparr>
      \<lparr>users = [], validUsers = {}, resourcesMap = [], accessMap = []\<rparr>))
      ''//storage.googleapis.com/b'' =
     Some \<lparr>ID = ''//storage.googleapis.com/b'', Resource.Name = ''b'', Resource.Type = ''storage'',
           Resource.Location = ''global'', IAM = []\<rparr> \<and>
   map_of (resourcesMap (processPolicy
      \<lparr>Resource = ''//pubsub.googleapis.com/projects/p/topics/t'', Bindings = []\<rparr>
      \<lparr>users = [], validUsers = {}, resourcesMap = [], accessMap = []\<rparr>))
      ''//pubsub.googleapis.com/projects/p/topics/t'' =
     Some \<lparr>ID = ''//pubsub.googleapis.com/projects/p/topics/t'', Resource.Name = ''t'',
           Resource.Type = ''pubsub'', Resource.Location = ''global'', IAM = []\<rparr>"
  using untracked_resource_created_global
    [of "\<lparr>users = [], validUsers = {}, resourcesMap = [], accessMap = []\<rparr>"
        "\<lparr>Resource = ''//storage.googleapis.com/b'', Bindings = []\<rparr>"]
    untracked_resource_created_global
    [of "\<lparr>users = [], validUsers = {}, resourcesMap = [], accessMap = []\<rparr>"
        "\<lparr>Resource = ''//pubsub.googleapis.com/projects/p/topics/t'', Bindings = []\<rparr>"]
  by (simp add: extractResourceName_def extractResourceType_kindOfIdentifier [symmetric]
      extractResourceType_def Contains_def)

text \<open>The location is \<^verbatim>\<open>global\<close>, not \<^verbatim>\<open>unknown\<close>, and the kind does not follow the
  service segment: the name of a resource of the service \<^verbatim>\<open>serviceusage.googleapis.com\<close>
  that ends in \<^verbatim>\<open>compute.googleapis.com\<close> is given the kind \<^verbatim>\<open>vm\<close>.\<close>

theorem created_resource_kind_and_location:
  "resourcesMap (processPolicy \<lparr>Resource = ''//storage.googleapis.com/b'', Bindings = []\<rparr>
      \<lparr>users = [], validUsers = {}, resourcesMap = [], accessMap = []\<rparr>) =
   [(''//storage.googleapis.com/b'',
     \<lparr>ID = ''//storage.googleapis.com/b'', Resource.Name = ''b'', Resource.Type = ''storage'',
      Resource.Location = ''global'', IAM = []\<rparr>)] \<and>
   ''global'' \<noteq> ''unknown'' \<and>
   takeWhile (\<lambda>ch. ch \<noteq> CHR ''/'')
     (drop 2 ''//serviceusage.googleapis.com/projects/p/services/compute.googleapis.com'') =
     ''serviceusage.googleapis.com'' \<and>
   resourcesMap (processPolicy
      \<lparr>Resource = ''//serviceusage.googleapis.com/projects/p/services/compute.googleapis.com'',
       Bindings = []\<rparr>
      \<lparr>users = [], validUsers = {}, resourcesMap = [], accessMap = []\<rparr>) =
   [(''//serviceusage.googleapis.com/projects/p/services/compute.googleapis.com'',
     \<lparr>ID = ''//serviceusage.googleapis.com/projects/p/services/compute.googleapis.com'',
      Resource.Name = ''compute.googleapis.com'', Resource.Type = ''vm'',
      Resource.Location = ''global'', IAM = []\<rparr>)]"
  by (simp add: processPolicy_def trackResource_def extractResourceName_def
      extractResourceType_def Contains_def Let_def)

section \<open>Maps that only grow\<close>

lemma update_absent: "k \<notin> fst ` set al \<Longrightarrow> AList.update k v al = al @ [(k, v)]"
  by (induction al) auto

lemma addAccess_eq:
  "addAccess key entry am = (if key \<in> fst ` set am then am else am @ [(key, entry)])"
  by (simp add: addAccess_def map_of_eq_None_iff update_absent)

lemma addAccess_hasRole:
  "list_all hasRole am \<Longrightarrow> Roles entry \<noteq> [] \<Longrightarrow> list_all hasRole (addAccess key entry am)"
  by (simp add: addAccess_eq hasRole_def)

lemma processMembers_hasRole:
  "list_all hasRole (accessMap st) \<Longrightarrow>
   list_all hasRole (accessMap (processMembers resourceID resourceName resourceType role ms st))"
proof (induction ms arbitrary: st)
  case Nil
  then show ?case by simp
next
  case (Cons member ms)
  show ?case
    unfolding processMembers.simps Let_def
    by (rule Cons.IH) (use Cons.prems in \<open>simp add: addAccess_hasRole\<close>)
qed

lemma processBindings_hasRole:
  "list_all hasRole (accessMap st) \<Longrightarrow>
   list_all hasRole (accessMap (processBindings resourceID resourceName resourceType bs st))"
  by (induction bs arbitrary: st) (simp_all add: processMembers_hasRole)

lemma processPolicy_hasRole:
  "list_all hasRole (accessMap st) \<Longrightarrow> list_all hasRole (accessMap (processPolicy policy st))"
  by (simp add: processPolicy_def Let_def processBindings_hasRole)

lemma searchPolicies_hasRole:
  "searchPolicies it st = Inr st' \<Longrightarrow> list_all hasRole (accessMap st) \<Longrightarrow>
   list_all hasRole (accessMap st')"
proof (induction it st rule: searchPolicies.induct)
  case (1 st)
  then show ?case by simp
next
  case (2 e it st)
  then show ?case by simp
next
  case (3 policy it st)
  then show ?case by (simp add: processPolicy_hasRole)
qed

lemma searchPolicies_first_error:
  "\<forall>x\<in>set pre. \<not> isl x \<Longrightarrow> searchPolicies (pre @ Inl e # rest) st = Inl (IteratePoliciesFailed e)"
proof (induction pre arbitrary: st)
  case Nil
  show ?case by simp
next
  case (Cons x pre)
  then show ?case by (cases x) simp_all
qed

lemma searchPolicies_error:
  "Inl e \<in> set it \<Longrightarrow> \<exists>e'. searchPolicies it st = Inl (IteratePoliciesFailed e')"
proof (induction it arbitrary: st)
  case Nil
  then show ?case by simp
next
  case (Cons x it)
  then show ?case by (cases x) auto
qed

lemma searchPolicies_total:
  "\<forall>x\<in>set it. \<not> isl x \<Longrightarrow> \<exists>st'. searchPolicies it st = Inr st'"
proof (induction it arbitrary: st)
  case Nil
  show ?case by simp
next
  case (Cons x it)
  then show ?case by (cases x) simp_all
qed

lemma collectProjectAccess_total:
  "list_all hasRole am \<Longrightarrow> \<exists>pa'. collectProjectAccess pid am pa = Inr pa'"
proof (induction am arbitrary: pa)
  case Nil
  show ?case by simp
next
  case (Cons p am)
  obtain key entry where p: "p = (key, entry)" by (cases p)
  from Cons.prems p obtain role roles where r: "Roles entry = role # roles"
    by (cases "Roles entry") (auto simp: hasRole_def)
  from Cons.prems have "list_all hasRole am" by simp
  from Cons.IH [OF this] show ?case by (simp add: p r)
qed

lemma groupRoles_total:
  "list_all hasRole am \<Longrightarrow> \<exists>urr'. groupRoles am urr = Inr urr'"
proof (induction am arbitrary: urr)
  case Nil
  show ?case by simp
next
  case (Cons p am)
  obtain key entry where p: "p = (key, entry)" by (cases p)
  from Cons.prems p obtain role roles where r: "Roles entry = role # roles"
    by (cases "Roles entry") (auto simp: hasRole_def)
  from Cons.prems have "list_all hasRole am" by simp
  from Cons.IH [OF this] show ?case by (simp add: p r Let_def)
qed

lemma grows_refl: "grows pid am am"
  by (simp add: grows_def)

lemma grows_trans:
  assumes "grows pid am am'" and "grows pid am' am''"
  shows "grows pid am am''"
proof -
  from assms(1) obtain a1 where a1: "am' = am @ a1"
    "\<forall>p\<in>set a1. fst p \<notin> fst ` set am \<and> ResourceID (snd p) \<noteq> pid \<and> Roles (snd p) \<noteq> [] \<and>
           fst p = accessKey (UserEmail (snd p)) (ResourceID (snd p)) (hd (Roles (snd p)))"
    unfolding grows_def by blast
  from assms(2) obtain a2 where a2: "am'' = am' @ a2"
    "\<forall>p\<in>set a2. fst p \<notin> fst ` set am' \<and> ResourceID (snd p) \<noteq> pid \<and> Roles (snd p) \<noteq> [] \<and>
           fst p = accessKey (UserEmail (snd p)) (ResourceID (snd p)) (hd (Roles (snd p)))"
    unfolding grows_def by blast
  have "am'' = am @ (a1 @ a2)" using a1(1) a2(1) by simp
  moreover have "\<forall>p\<in>set (a1 @ a2). fst p \<notin> fst ` set am \<and> ResourceID (snd p) \<noteq> pid \<and> Roles (snd p) \<noteq> [] \<and>
           fst p = accessKey (UserEmail (snd p)) (ResourceID (snd p)) (hd (Roles (snd p)))"
    using a1 a2 by auto
  ultimately show ?thesis unfolding grows_def by blast
qed

lemma grows_addAccess:
  "ResourceID entry \<noteq> pid \<Longrightarrow> Roles entry \<noteq> [] \<Longrightarrow>
   key = accessKey (UserEmail entry) (ResourceID entry) (hd (Roles entry)) \<Longrightarrow>
   grows pid am (addAccess key entry am)"
  by (auto simp: grows_def addAccess_eq)

lemma inheritResources_grows:
  "grows pid am (inheritResources pid userEmail role types rm am)"
proof (induction rm arbitrary: am)
  case Nil
  show ?case by (simp add: grows_refl)
next
  case (Cons p rm)
  obtain resourceID resource where p: "p = (resourceID, resource)" by (cases p)
  show ?case
    unfolding p inheritResources.simps
    by (rule grows_trans [OF _ Cons.IH]) (simp add: grows_refl grows_addAccess)
qed

lemma inheritRoles_grows: "grows pid am (inheritRoles pid userEmail roles rm am)"
proof (induction roles arbitrary: am)
  case Nil
  show ?case by (simp add: grows_refl)
next
  case (Cons role roles)
  show ?case
    unfolding inheritRoles.simps
    by (rule grows_trans [OF inheritResources_grows Cons.IH])
qed

lemma inheritUsers_grows: "grows pid am (inheritUsers pid pa rm am)"
proof (induction pa arbitrary: am)
  case Nil
  show ?case by (simp add: grows_refl)
next
  case (Cons p pa)
  obtain userEmail roles where p: "p = (userEmail, roles)" by (cases p)
  show ?case
    unfolding p inheritUsers.simps
    by (rule grows_trans [OF inheritRoles_grows Cons.IH])
qed

lemma grows_hasRole: "grows pid am am' \<Longrightarrow> list_all hasRole am \<Longrightarrow> list_all hasRole am'"
  by (fastforce simp: grows_def hasRole_def list_all_iff)

lemma resolveInherited_grows: "resolveInherited pid rm am = Inr am' \<Longrightarrow> grows pid am am'"
  by (auto simp: resolveInherited_def inheritUsers_grows split: sum.splits)

lemma resolveInherited_total:
  "list_all hasRole am \<Longrightarrow> \<exists>am'. resolveInherited pid rm am = Inr am'"
  using collectProjectAccess_total [of am pid "[]"] by (auto simp: resolveInherited_def)

section \<open>Which failures are fatal\<close>

lemma GetAccessMatrix_succeeds:
  assumes "GetIamPolicy c = Inr bindings" and "NewAssetClient c = None"
    and "\<forall>x\<in>set (SearchAllIamPolicies c). \<not> isl x"
  shows "\<exists>m. GetAccessMatrix c = Inr m"
proof -
  let ?st0 = "\<lparr>users = map snd (addBindings bindings []),
               validUsers = set (map Email (map snd (addBindings bindings []))),
               resourcesMap = knownResourcesMap c, accessMap = []\<rparr>"
  from searchPolicies_total [OF assms(3)] obtain st
    where st: "searchPolicies (SearchAllIamPolicies c) ?st0 = Inr st" by blast
  from searchPolicies_hasRole [OF st] have ok: "list_all hasRole (accessMap st)" by simp
  from resolveInherited_total [OF ok] obtain am
    where am: "resolveInherited (projectResourceID c) (resourcesMap st) (accessMap st) = Inr am"
    by blast
  from grows_hasRole [OF resolveInherited_grows [OF am] ok] have "list_all hasRole am" .
  from groupRoles_total [OF this] obtain urr where "groupRoles am [] = Inr urr" by blast
  with st am assms(1,2) show ?thesis
    by (simp add: GetAccessMatrix_def GetUsers_def)
qed

text \<open>
  Claim C4. When the project policy cannot be fetched, \<^verbatim>\<open>GetAccessMatrix\<close> returns that
  error. When the policy search fails at any point, \<^verbatim>\<open>GetAccessMatrix\<close> returns an error
  and no matrix: if the users were fetched and the asset client was created, the error is
  the first failure of the search, whatever was read before it and whatever would follow.
\<close>

theorem fatal_sources_abort:
  "(GetIamPolicy c = Inl e \<longrightarrow> GetAccessMatrix c = Inl (GetIamPolicyFailed e)) \<and>
   (Inl e \<in> set (SearchAllIamPolicies c) \<longrightarrow> isl (GetAccessMatrix c)) \<and>
   (GetIamPolicy c = Inr bindings \<and> NewAssetClient c = None \<and>
    SearchAllIamPolicies c = pre @ Inl e # rest \<and> (\<forall>x\<in>set pre. \<not> isl x) \<longrightarrow>
      GetAccessMatrix c = Inl (IteratePoliciesFailed e))"
proof (intro conjI impI)
  assume "GetIamPolicy c = Inl e"
  then show "GetAccessMatrix c = Inl (GetIamPolicyFailed e)"
    by (simp add: GetAccessMatrix_def GetUsers_def)
next
  assume mem: "Inl e \<in> set (SearchAllIamPolicies c)"
  show "isl (GetAccessMatrix c)"
  proof (cases "GetUsers c")
    case (Inl e0)
    then show ?thesis by (simp add: GetAccessMatrix_def)
  next
    case (Inr users0)
    show ?thesis
    proof (cases "NewAssetClient c")
      case (Some e1)
      with Inr show ?thesis by (simp add: GetAccessMatrix_def)
    next
      case None
      from searchPolicies_error [OF mem]
      obtain e' where "searchPolicies (SearchAllIamPolicies c)
          \<lparr>users = users0, validUsers = set (map Email users0),
           resourcesMap = knownResourcesMap c, accessMap = []\<rparr> = Inl (IteratePoliciesFailed e')"
        by blast
      with Inr None show ?thesis by (simp add: GetAccessMatrix_def)
    qed
  qed
next
  assume a: "GetIamPolicy c = Inr bindings \<and> NewAssetClient c = None \<and>
    SearchAllIamPolicies c = pre @ Inl e # rest \<and> (\<forall>x\<in>set pre. \<not> isl x)"
  then have "\<forall>x\<in>set pre. \<not> isl x" by simp
  from searchPolicies_first_error [OF this] a
  show "GetAccessMatrix c = Inl (IteratePoliciesFailed e)"
    by (simp add: GetAccessMatrix_def GetUsers_def)
qed

theorem fatal_sources_abort_witness:
  "GetAccessMatrix (emptyProject\<lparr>GetIamPolicy := Inl ''permission denied''\<rparr>) =
     Inl (GetIamPolicyFailed ''permission denied'') \<and>
   isl (GetAccessMatrix (emptyProject\<lparr>SearchAllIamPolicies :=
     [Inr \<lparr>Resource = ''//storage.googleapis.com/b'', Bindings = []\<rparr>, Inl ''quota exceeded'',
      Inr \<lparr>Resource = ''//storage.googleapis.com/c'', Bindings = []\<rparr>]\<rparr>)) \<and>
   GetAccessMatrix (emptyProject\<lparr>SearchAllIamPolicies :=
     [Inr \<lparr>Resource = ''//storage.googleapis.com/b'', Bindings = []\<rparr>, Inl ''quota exceeded'',
      Inr \<lparr>Resource = ''//storage.googleapis.com/c'', Bindings = []\<rparr>]\<rparr>) =
     Inl (IteratePoliciesFailed ''quota exceeded'')"
  using fatal_sources_abort [of "emptyProject\<lparr>GetIamPolicy := Inl ''permission denied''\<rparr>"
      "''permission denied''"]
    fatal_sources_abort [of "emptyProject\<lparr>SearchAllIamPolicies :=
     [Inr \<lparr>Resource = ''//storage.googleapis.com/b'', Bindings = []\<rparr>, Inl ''quota exceeded'',
      Inr \<lparr>Resource = ''//storage.googleapis.com/c'', Bindings = []\<rparr>]\<rparr>"
      "''quota exceeded''" "[]"
      "[Inr \<lparr>Resource = ''//storage.googleapis.com/b'', Bindings = []\<rparr>]"
      "[Inr \<lparr>Resource = ''//storage.googleapis.com/c'', Bindings = []\<rparr>]"]
  by (simp add: emptyProject_def)

section \<open>The inventory\<close>

lemma listServices_error:
  "\<forall>x\<in>set pre. \<not> isl x \<Longrightarrow> listServices c (pre @ Inl e # rest) resources = Inl e"
proof (induction pre arbitrary: resources)
  case Nil
  show ?case by simp
next
  case (Cons x pre)
  then show ?case by (cases x) simp_all
qed

lemma listServices_all:
  "\<forall>x\<in>set it. \<not> isl x \<Longrightarrow>
   listServices c it resources = Inr (resources @ map (serviceResource c \<circ> projr) it)"
proof (induction it arbitrary: resources)
  case Nil
  show ?case by simp
next
  case (Cons x it)
  then show ?case by (cases x) simp_all
qed

lemma listZone_eq:
  "listZone c zone it resources =
   resources @ map (instanceResource c zone \<circ> projr) (takeWhile (\<lambda>x. \<not> isl x) it)"
proof (induction it arbitrary: resources)
  case Nil
  show ?case by simp
next
  case (Cons x it)
  then show ?case by (cases x) simp_all
qed

lemma listZones_eq:
  "listZones c zs resources =
   resources @ concat (map (\<lambda>zone. map (instanceResource c zone \<circ> projr)
                                      (takeWhile (\<lambda>x. \<not> isl x) (ListInstances c zone))) zs)"
  by (induction zs arbitrary: resources) (simp_all add: listZone_eq)

text \<open>
  Claim C5, as the code has it. \<^verbatim>\<open>GetResources\<close> is all or nothing for two of its three
  backends: when the cluster listing fails, or the Cloud Run listing fails at any point,
  it returns that error and no resource of any backend, and \<^verbatim>\<open>GetAccessMatrix\<close> goes on
  with no inventory resources at all. Only the VM listing is partial: a failure in one zone
  ends the listing of that zone, the instances read before it and those of the other zones
  are kept, and \<^verbatim>\<open>getVMs\<close> never fails. When neither the cluster nor the Cloud Run listing
  fails, the result is the clusters, then the VMs, then the services. Whatever the inventory
  does, \<^verbatim>\<open>GetAccessMatrix\<close> succeeds when the project policy, the asset client and the
  policy search do.
\<close>

theorem inventory_failure_drops_whole_inventory:
  "(ListClusters c = Inl e \<longrightarrow>
      GetResources c = Inl (GetGKEClustersFailed e) \<and> knownResourcesMap c = []) \<and>
   (ListClusters c = Inr clusters \<and> ListServices c = pre @ Inl e # rest \<and>
    (\<forall>x\<in>set pre. \<not> isl x) \<longrightarrow>
      GetResources c = Inl (GetCloudRunServicesFailed e) \<and> knownResourcesMap c = []) \<and>
   (ListClusters c = Inr clusters \<and> (\<forall>x\<in>set (ListServices c). \<not> isl x) \<longrightarrow>
      GetResources c =
        Inr (map clusterResource clusters @
             concat (map (\<lambda>zone. map (instanceResource c zone \<circ> projr)
                                    (takeWhile (\<lambda>x. \<not> isl x) (ListInstances c zone))) zones) @
             map (serviceResource c \<circ> projr) (ListServices c))) \<and>
   getVMs c =
     Inr (concat (map (\<lambda>zone. map (instanceResource c zone \<circ> projr)
                                (takeWhile (\<lambda>x. \<not> isl x) (ListInstances c zone))) zones)) \<and>
   (GetIamPolicy c = Inr bindings \<and> NewAssetClient c = None \<and>
    (\<forall>x\<in>set (SearchAllIamPolicies c). \<not> isl x) \<longrightarrow> \<not> isl (GetAccessMatrix c))"
proof (intro conjI impI)
  assume "ListClusters c = Inl e"
  then show "GetResources c = Inl (GetGKEClustersFailed e)"
    and "knownResourcesMap c = []"
    by (simp_all add: knownResourcesMap_def GetResources_def getGKEClusters_def)
next
  assume a: "ListClusters c = Inr clusters \<and> ListServices c = pre @ Inl e # rest \<and>
    (\<forall>x\<in>set pre. \<not> isl x)"
  then have "\<forall>x\<in>set pre. \<not> isl x" by simp
  from listServices_error [OF this, of c e rest "[]"] a
  show "GetResources c = Inl (GetCloudRunServicesFailed e)"
    and "knownResourcesMap c = []"
    by (simp_all add: knownResourcesMap_def GetResources_def getGKEClusters_def getVMs_def
        getCloudRunServices_def)
next
  assume a: "ListClusters c = Inr clusters \<and> (\<forall>x\<in>set (ListServices c). \<not> isl x)"
  then have "\<forall>x\<in>set (ListServices c). \<not> isl x" by simp
  from listServices_all [OF this, of c "[]"] a
  show "GetResources c =
        Inr (map clusterResource clusters @
             concat (map (\<lambda>zone. map (instanceResource c zone \<circ> projr)
                                    (takeWhile (\<lambda>x. \<not> isl x) (ListInstances c zone))) zones) @
             map (serviceResource c \<circ> projr) (ListServices c))"
    by (simp add: GetResources_def getGKEClusters_def getVMs_def getCloudRunServices_def
        listZones_eq)
next
  show "getVMs c =
     Inr (concat (map (\<lambda>zone. map (instanceResource c zone \<circ> projr)
                                (takeWhile (\<lambda>x. \<not> isl x) (ListInstances c zone))) zones))"
    by (simp add: getVMs_def listZones_eq)
next
  assume "GetIamPolicy c = Inr bindings \<and> NewAssetClient c = None \<and>
    (\<forall>x\<in>set (SearchAllIamPolicies c). \<not> isl x)"
  then have "\<exists>m. GetAccessMatrix c = Inr m"
    using GetAccessMatrix_succeeds [of c bindings] by blast
  then show "\<not> isl (GetAccessMatrix c)" by auto
qed

text \<open>Three examples: the cluster listing fails although one zone lists a VM; the Cloud Run
  listing fails after its first service; and one zone fails after its first VM while
  another zone lists one.\<close>

theorem inventory_failure_drops_whole_inventory_witness:
  "GetResources (emptyProject\<lparr>ListClusters := Inl ''unavailable'',
      ListInstances := (\<lambda>zone. if zone = ''us-central1-a''
                                then [Inr \<lparr>Id = 42, Instance.Name = ''vm-1''\<rparr>] else [])\<rparr>) =
     Inl (GetGKEClustersFailed ''unavailable'') \<and>
   GetResources (emptyProject\<lparr>ListServices :=
      [Inr \<lparr>Service.Name = ''projects/p/locations/us-central1/services/api''\<rparr>, Inl ''timeout'']\<rparr>) =
     Inl (GetCloudRunServicesFailed ''timeout'') \<and>
   GetResources (emptyProject\<lparr>ListInstances :=
      (\<lambda>zone. if zone = ''us-central1-a''
               then [Inr \<lparr>Id = 42, Instance.Name = ''vm-1''\<rparr>, Inl ''zone down'',
                     Inr \<lparr>Id = 43, Instance.Name = ''vm-2''\<rparr>]
               else if zone = ''us-east1-b'' then [Inr \<lparr>Id = 44, Instance.Name = ''vm-3''\<rparr>]
               else [])\<rparr>) =
     Inr [\<lparr>ID = ''42'', Resource.Name = ''vm-1'', Resource.Type = ''vm'',
           Resource.Location = ''us-central1-a'', IAM = []\<rparr>,
          \<lparr>ID = ''44'', Resource.Name = ''vm-3'', Resource.Type = ''vm'',
           Resource.Location = ''us-east1-b'', IAM = []\<rparr>] \<and>
   \<not> isl (GetAccessMatrix (emptyProject\<lparr>ListClusters := Inl ''unavailable''\<rparr>))"
  using inventory_failure_drops_whole_inventory [of
      "emptyProject\<lparr>ListClusters := Inl ''unavailable'',
         ListInstances := (\<lambda>zone. if zone = ''us-central1-a''
                                then [Inr \<lparr>Id = 42, Instance.Name = ''vm-1''\<rparr>] else [])\<rparr>"
      "''unavailable''"]
    inventory_failure_drops_whole_inventory [of
      "emptyProject\<lparr>ListServices :=
        [Inr \<lparr>Service.Name = ''projects/p/locations/us-central1/services/api''\<rparr>, Inl ''timeout'']\<rparr>"
      "''timeout''" "[]" "[Inr \<lparr>Service.Name = ''projects/p/locations/us-central1/services/api''\<rparr>]" "[]"]
    inventory_failure_drops_whole_inventory [of
      "emptyProject\<lparr>ListInstances :=
      (\<lambda>zone. if zone = ''us-central1-a''
               then [Inr \<lparr>Id = 42, Instance.Name = ''vm-1''\<rparr>, Inl ''zone down'',
                     Inr \<lparr>Id = 43, Instance.Name = ''vm-2''\<rparr>]
               else if zone = ''us-east1-b'' then [Inr \<lparr>Id = 44, Instance.Name = ''vm-3''\<rparr>]
               else [])\<rparr>" _ "[]"]
    inventory_failure_drops_whole_inventory [of
      "emptyProject\<lparr>ListClusters := Inl ''unavailable''\<rparr>" "''unavailable''" _ _ _ "[]"]
  by (simp add: emptyProject_def zones_def instanceResource_def decimal.simps digit_def)

text \<open>The claim as the specification words it fails: the VM listing works and returns a
  VM, the cluster listing fails, and \<^verbatim>\<open>GetResources\<close> returns no resource.\<close>

theorem cluster_failure_loses_vms:
  "getVMs (emptyProject\<lparr>ListClusters := Inl ''unavailable'',
      ListInstances := (\<lambda>zone. if zone = ''us-central1-a''
                                then [Inr \<lparr>Id = 42, Instance.Name = ''vm-1''\<rparr>] else [])\<rparr>) =
     Inr [\<lparr>ID = ''42'', Resource.Name = ''vm-1'', Resource.Type = ''vm'',
           Resource.Location = ''us-central1-a'', IAM = []\<rparr>] \<and>
   GetResources (emptyProject\<lparr>ListClusters := Inl ''unavailable'',
      ListInstances := (\<lambda>zone. if zone = ''us-central1-a''
                                then [Inr \<lparr>Id = 42, Instance.Name = ''vm-1''\<rparr>] else [])\<rparr>) =
     Inl (GetGKEClustersFailed ''unavailable'') \<and>
   GetAccessMatrix (emptyProject\<lparr>ListClusters := Inl ''unavailable'',
      ListInstances := (\<lambda>zone. if zone = ''us-central1-a''
                                then [Inr \<lparr>Id = 42, Instance.Name = ''vm-1''\<rparr>] else [])\<rparr>) =
     Inr \<lparr>Users = [], Resources = [], Access = []\<rparr>"
  by (simp add: emptyProject_def GetAccessMatrix_def GetUsers_def knownResourcesMap_def
      GetResources_def getGKEClusters_def getVMs_def zones_def instanceResource_def
      decimal.simps digit_def resolveInherited_def)

section \<open>The inheritance step\<close>

lemma grows_keys: "grows pid am am' \<Longrightarrow> fst ` set am \<subseteq> fst ` set am'"
  by (auto simp: grows_def)

lemma grows_map_of: "grows pid am am' \<Longrightarrow> map_of am key = Some entry \<Longrightarrow> map_of am' key = Some entry"
  by (auto simp: grows_def map_add_Some_iff)

lemma inheritedKeys_Nil [simp]: "inheritedKeys pid userEmail role types [] = {}"
  by (simp add: inheritedKeys_def)

lemma inheritedKeys_Cons:
  "inheritedKeys pid userEmail role types ((resourceID, resource) # rm) =
     (if resourceID \<noteq> pid \<and> contains types (Resource.Type resource)
      then {accessKey userEmail resourceID role} else {}) \<union>
     inheritedKeys pid userEmail role types rm"
  by (auto simp: inheritedKeys_def)

lemma inheritedKeys_mono:
  "set rm' \<subseteq> set rm \<Longrightarrow>
   inheritedKeys pid userEmail role types rm' \<subseteq> inheritedKeys pid userEmail role types rm"
  by (auto simp: inheritedKeys_def)

lemma inheritResources_fix:
  "inheritedKeys pid userEmail role types rm \<subseteq> fst ` set am \<Longrightarrow>
   inheritResources pid userEmail role types rm am = am"
proof (induction rm arbitrary: am)
  case Nil
  show ?case by simp
next
  case (Cons p rm)
  obtain resourceID resource where p: "p = (resourceID, resource)" by (cases p)
  from Cons.prems have rest: "inheritedKeys pid userEmail role types rm \<subseteq> fst ` set am"
    by (simp add: p inheritedKeys_Cons)
  from Cons.prems
  have "resourceID \<noteq> pid \<Longrightarrow> contains types (Resource.Type resource) \<Longrightarrow>
        accessKey userEmail resourceID role \<in> fst ` set am"
    by (simp add: p inheritedKeys_Cons)
  then show ?case
    by (simp add: p addAccess_eq Cons.IH [OF rest])
qed

lemma inheritResources_cover:
  "inheritedKeys pid userEmail role types rm \<subseteq>
   fst ` set (inheritResources pid userEmail role types rm am)"
proof (induction rm arbitrary: am)
  case Nil
  show ?case by simp
next
  case (Cons p rm)
  obtain resourceID resource where p: "p = (resourceID, resource)" by (cases p)
  define am1 where "am1 = (if resourceID = pid then am
        else if contains types (Resource.Type resource) then
          addAccess (accessKey userEmail resourceID role)
            \<lparr>UserEmail = userEmail, ResourceID = resourceID, ResourceName = Resource.Name resource,
             ResourceType = Resource.Type resource, Roles = [role]\<rparr> am
        else am)"
  have step: "inheritResources pid userEmail role types ((resourceID, resource) # rm) am =
      inheritResources pid userEmail role types rm am1"
    by (simp add: am1_def)
  have head: "resourceID \<noteq> pid \<and> contains types (Resource.Type resource) \<Longrightarrow>
        accessKey userEmail resourceID role \<in> fst ` set am1"
    by (simp add: addAccess_eq am1_def)
  have keep: "fst ` set am1 \<subseteq> fst ` set (inheritResources pid userEmail role types rm am1)"
    by (rule grows_keys [OF inheritResources_grows])
  have rest: "inheritedKeys pid userEmail role types rm \<subseteq>
      fst ` set (inheritResources pid userEmail role types rm am1)"
    by (rule Cons.IH)
  show ?case
  proof (cases "resourceID \<noteq> pid \<and> contains types (Resource.Type resource)")
    case True
    from head [OF True] keep
    have "accessKey userEmail resourceID role \<in>
        fst ` set (inheritResources pid userEmail role types rm am1)" by blast
    with rest True show ?thesis
      unfolding p step inheritedKeys_Cons by simp
  next
    case False
    with rest show ?thesis
      unfolding p step inheritedKeys_Cons by auto
  qed
qed

lemma inheritRoles_fix:
  "(\<And>role. role \<in> set roles \<Longrightarrow>
      inheritedKeys pid userEmail role (getApplicableResourceTypes role) rm \<subseteq> fst ` set am) \<Longrightarrow>
   inheritRoles pid userEmail roles rm am = am"
  by (induction roles) (simp_all add: inheritResources_fix)

lemma inheritRoles_cover:
  "role \<in> set roles \<Longrightarrow>
   inheritedKeys pid userEmail role (getApplicableResourceTypes role) rm \<subseteq>
   fst ` set (inheritRoles pid userEmail roles rm am)"
proof (induction roles arbitrary: am)
  case Nil
  then show ?case by simp
next
  case (Cons r roles)
  let ?am1 = "inheritResources pid userEmail r (getApplicableResourceTypes r) rm am"
  show ?case
  proof (cases "role = r")
    case True
    have "inheritedKeys pid userEmail r (getApplicableResourceTypes r) rm \<subseteq> fst ` set ?am1"
      by (rule inheritResources_cover)
    also have "\<dots> \<subseteq> fst ` set (inheritRoles pid userEmail roles rm ?am1)"
      by (rule grows_keys [OF inheritRoles_grows])
    finally show ?thesis by (simp add: True)
  next
    case False
    with Cons.prems have "role \<in> set roles" by simp
    from Cons.IH [OF this] show ?thesis by simp
  qed
qed

lemma inheritUsers_fix:
  "(\<And>userEmail roles role. (userEmail, roles) \<in> set pa \<Longrightarrow> role \<in> set roles \<Longrightarrow>
      inheritedKeys pid userEmail role (getApplicableResourceTypes role) rm \<subseteq> fst ` set am) \<Longrightarrow>
   inheritUsers pid pa rm am = am"
proof (induction pa)
  case Nil
  show ?case by simp
next
  case (Cons p pa)
  obtain userEmail roles where p: "p = (userEmail, roles)" by (cases p)
  have "inheritRoles pid userEmail roles rm am = am"
    by (rule inheritRoles_fix) (rule Cons.prems, simp_all add: p)
  moreover have "inheritUsers pid pa rm am = am"
    by (rule Cons.IH) (rule Cons.prems, simp_all)
  ultimately show ?case by (simp add: p)
qed

lemma inheritUsers_cover:
  "(userEmail, roles) \<in> set pa \<Longrightarrow> role \<in> set roles \<Longrightarrow>
   inheritedKeys pid userEmail role (getApplicableResourceTypes role) rm \<subseteq>
   fst ` set (inheritUsers pid pa rm am)"
proof (induction pa arbitrary: am)
  case Nil
  then show ?case by simp
next
  case (Cons p pa)
  obtain u rs where p: "p = (u, rs)" by (cases p)
  let ?am1 = "inheritRoles pid u rs rm am"
  show ?case
  proof (cases "(userEmail, roles) = p")
    case True
    then have "inheritedKeys pid userEmail role (getApplicableResourceTypes role) rm \<subseteq> fst ` set ?am1"
      using inheritRoles_cover [OF Cons.prems(2)] by (simp add: p)
    also have "\<dots> \<subseteq> fst ` set (inheritUsers pid pa rm ?am1)"
      by (rule grows_keys [OF inheritUsers_grows])
    finally show ?thesis by (simp add: p)
  next
    case False
    with Cons.prems have "(userEmail, roles) \<in> set pa" by auto
    from Cons.IH [OF this Cons.prems(2)] show ?thesis by (simp add: p)
  qed
qed

text \<open>Running the loops again, in any order of users, roles and resources, adds nothing.\<close>

lemma inheritUsers_again:
  assumes "set rm' \<subseteq> set rm"
    and "\<And>userEmail roles' role. (userEmail, roles') \<in> set pa' \<Longrightarrow> role \<in> set roles' \<Longrightarrow>
           \<exists>roles. (userEmail, roles) \<in> set pa \<and> role \<in> set roles"
  shows "inheritUsers pid pa' rm' (inheritUsers pid pa rm am) = inheritUsers pid pa rm am"
proof (rule inheritUsers_fix)
  fix userEmail roles' role
  assume "(userEmail, roles') \<in> set pa'" and "role \<in> set roles'"
  from assms(2) [OF this] obtain roles where "(userEmail, roles) \<in> set pa" "role \<in> set roles"
    by blast
  from inheritUsers_cover [OF this] inheritedKeys_mono [OF assms(1)]
  show "inheritedKeys pid userEmail role (getApplicableResourceTypes role) rm' \<subseteq>
        fst ` set (inheritUsers pid pa rm am)"
    by blast
qed

lemma collectProjectAccess_append:
  "collectProjectAccess pid (xs @ ys) pa =
     (case collectProjectAccess pid xs pa of
        Inl e \<Rightarrow> Inl e
      | Inr pa' \<Rightarrow> collectProjectAccess pid ys pa')"
proof (induction xs arbitrary: pa)
  case Nil
  show ?case by simp
next
  case (Cons p xs)
  obtain key entry where p: "p = (key, entry)" by (cases p)
  show ?case by (simp add: p Cons.IH split: list.splits)
qed

lemma collectProjectAccess_skip:
  "\<forall>p\<in>set ys. ResourceID (snd p) \<noteq> pid \<Longrightarrow> collectProjectAccess pid ys pa = Inr pa"
  by (induction ys) auto

lemma collectProjectAccess_grows:
  assumes "grows pid am am'"
  shows "collectProjectAccess pid am' pa = collectProjectAccess pid am pa"
proof -
  from assms obtain added where am': "am' = am @ added"
    and added: "\<forall>p\<in>set added. ResourceID (snd p) \<noteq> pid"
    unfolding grows_def by blast
  show ?thesis
    unfolding am' collectProjectAccess_append
    by (cases "collectProjectAccess pid am pa")
       (simp_all add: collectProjectAccess_skip [OF added])
qed

text \<open>
  Claim C1. Let \<^verbatim>\<open>accessMap\<close> hold an entry under the key of a user, a resource and a role,
  as the policy loop records a direct grant. After the inheritance loops, run for any roles
  held on the project and any tracked resources, in any order, the same entry is still the
  one under that key, and the loops have only appended entries, none of them under that
  key and none of them for that user, resource and role: no inherited entry takes the
  place of the direct one or stands beside it. In particular the direct entry is still
  under its key after the inheritance step of \<^verbatim>\<open>GetAccessMatrix\<close>.
\<close>

theorem inherited_never_overrides_direct:
  assumes "map_of am (accessKey userEmail resourceID role) = Some direct"
  shows "map_of (inheritUsers pid pa rm am) (accessKey userEmail resourceID role) = Some direct \<and>
         (\<exists>added. inheritUsers pid pa rm am = am @ added \<and>
            accessKey userEmail resourceID role \<notin> fst ` set added \<and>
            (\<forall>p\<in>set added.
               (UserEmail (snd p), ResourceID (snd p), Roles (snd p)) \<noteq>
               (userEmail, resourceID, [role]))) \<and>
         (\<forall>am'. resolveInherited pid rm am = Inr am' \<longrightarrow>
                map_of am' (accessKey userEmail resourceID role) = Some direct)"
proof -
  let ?key = "accessKey userEmail resourceID role"
  have g: "grows pid am (inheritUsers pid pa rm am)" by (rule inheritUsers_grows)
  then obtain added where am': "inheritUsers pid pa rm am = am @ added"
    and fresh: "\<forall>p\<in>set added. fst p \<notin> fst ` set am"
    and own: "\<forall>p\<in>set added.
        fst p = accessKey (UserEmail (snd p)) (ResourceID (snd p)) (hd (Roles (snd p)))"
    unfolding grows_def by blast
  from assms have old: "?key \<in> fst ` set am"
    by (rule map_of_SomeD [THEN image_eqI [rotated]]) simp
  have key: "?key \<notin> fst ` set added"
  proof
    assume "?key \<in> fst ` set added"
    then obtain p where "p \<in> set added" and "fst p = ?key" by auto
    with fresh have "?key \<notin> fst ` set am" by metis
    with old show False by contradiction
  qed
  have triple: "\<forall>p\<in>set added.
      (UserEmail (snd p), ResourceID (snd p), Roles (snd p)) \<noteq> (userEmail, resourceID, [role])"
  proof
    fix p
    assume p: "p \<in> set added"
    show "(UserEmail (snd p), ResourceID (snd p), Roles (snd p)) \<noteq> (userEmail, resourceID, [role])"
    proof
      assume "(UserEmail (snd p), ResourceID (snd p), Roles (snd p)) = (userEmail, resourceID, [role])"
      with own p have "fst p = ?key" by simp
      with p have "?key \<in> fst ` set added" by (metis imageI)
      with key show False by contradiction
    qed
  qed
  from am' key triple
  have 1: "\<exists>added. inheritUsers pid pa rm am = am @ added \<and> ?key \<notin> fst ` set added \<and>
            (\<forall>p\<in>set added.
               (UserEmail (snd p), ResourceID (snd p), Roles (snd p)) \<noteq>
               (userEmail, resourceID, [role]))"
    by blast
  have 2: "\<forall>am'. resolveInherited pid rm am = Inr am' \<longrightarrow> map_of am' ?key = Some direct"
  proof (intro allI impI)
    fix am'
    assume "resolveInherited pid rm am = Inr am'"
    from grows_map_of [OF resolveInherited_grows [OF this] assms]
    show "map_of am' ?key = Some direct" .
  qed
  from grows_map_of [OF g assms] have 0: "map_of (inheritUsers pid pa rm am) ?key = Some direct" .
  from 0 1 2 show ?thesis by (intro conjI)
qed

text \<open>
  Claim C6. The inheritance step is idempotent: run on its own result, with the same
  tracked resources, it returns that result unchanged.
\<close>

theorem resolveInherited_idempotent:
  assumes "resolveInherited pid rm am = Inr am'"
  shows "resolveInherited pid rm am' = Inr am'"
proof -
  from assms obtain pa where pa: "collectProjectAccess pid am [] = Inr pa"
    and am': "am' = inheritUsers pid pa rm am"
    by (auto simp: resolveInherited_def split: sum.splits)
  from resolveInherited_grows [OF assms] have "grows pid am am'" .
  from collectProjectAccess_grows [OF this] pa
  have "collectProjectAccess pid am' [] = Inr pa" by simp
  moreover have "inheritUsers pid pa rm am' = am'"
    unfolding am' by (rule inheritUsers_again) auto
  ultimately show ?thesis by (simp add: resolveInherited_def)
qed

lemma example_resolveInherited:
  "resolveInherited ''//cloudresourcemanager.googleapis.com/projects/p'' exampleResources
     exampleAccess = Inr (exampleAccess @ exampleInherited)"
  by (simp add: resolveInherited_def exampleResources_def exampleAccess_def exampleInherited_def
      rolesOf_def getApplicableResourceTypes_def Contains_def addAccess_def accessKey_def)

theorem inherited_never_overrides_direct_witness:
  "map_of exampleAccess
     (accessKey ''alice@example.com'' ''//storage.googleapis.com/b'' ''roles/editor'') =
     Some \<lparr>UserEmail = ''alice@example.com'', ResourceID = ''//storage.googleapis.com/b'',
        ResourceName = ''b'', ResourceType = ''storage'', Roles = [''roles/editor'']\<rparr> \<and>
   resolveInherited ''//cloudresourcemanager.googleapis.com/projects/p'' exampleResources
     exampleAccess = Inr (exampleAccess @ exampleInherited) \<and>
   map_of (exampleAccess @ exampleInherited)
     (accessKey ''alice@example.com'' ''//storage.googleapis.com/b'' ''roles/editor'') =
     Some \<lparr>UserEmail = ''alice@example.com'', ResourceID = ''//storage.googleapis.com/b'',
        ResourceName = ''b'', ResourceType = ''storage'', Roles = [''roles/editor'']\<rparr>"
proof -
  have direct: "map_of exampleAccess
     (accessKey ''alice@example.com'' ''//storage.googleapis.com/b'' ''roles/editor'') =
     Some \<lparr>UserEmail = ''alice@example.com'', ResourceID = ''//storage.googleapis.com/b'',
        ResourceName = ''b'', ResourceType = ''storage'', Roles = [''roles/editor'']\<rparr>"
    by (simp add: exampleAccess_def accessKey_def)
  from inherited_never_overrides_direct
    [OF direct, of "''//cloudresourcemanager.googleapis.com/projects/p''" "[]" exampleResources]
    example_resolveInherited direct
  show ?thesis by blast
qed

theorem resolveInherited_idempotent_witness:
  "resolveInherited ''//cloudresourcemanager.googleapis.com/projects/p'' exampleResources
     exampleAccess = Inr (exampleAccess @ exampleInherited) \<and>
   resolveInherited ''//cloudresourcemanager.googleapis.com/projects/p'' exampleResources
     (exampleAccess @ exampleInherited) = Inr (exampleAccess @ exampleInherited)"
  using resolveInherited_idempotent [OF example_resolveInherited] example_resolveInherited
  by blast

lemma rolesOf_update:
  "rolesOf (AList.update u roles pa) u' = (if u' = u then roles else rolesOf pa u')"
  by (simp add: rolesOf_def update_conv')

lemma grantsOf_update:
  "grantsOf (AList.update u (rolesOf pa u @ [r]) pa) = insert (u, r) (grantsOf pa)"
  unfolding grantsOf_def by (auto simp: rolesOf_update split: if_splits)

lemma projectGrants_Cons:
  "projectGrants pid ((key, entry) # am) =
     (if ResourceID entry = pid then {(UserEmail entry, hd (Roles entry))} else {}) \<union>
     projectGrants pid am"
  unfolding projectGrants_def by auto

lemma collectProjectAccess_grants:
  "collectProjectAccess pid am pa0 = Inr pa \<Longrightarrow>
   grantsOf pa = grantsOf pa0 \<union> projectGrants pid am"
proof (induction am arbitrary: pa0)
  case Nil
  then show ?case by (simp add: projectGrants_def)
next
  case (Cons p am)
  obtain key entry where p: "p = (key, entry)" by (cases p)
  show ?case
  proof (cases "ResourceID entry = pid")
    case False
    with Cons.prems have "collectProjectAccess pid am pa0 = Inr pa" by (simp add: p)
    from Cons.IH [OF this] False show ?thesis by (simp add: p projectGrants_Cons)
  next
    case True
    with Cons.prems obtain role roles where r: "Roles entry = role # roles"
      and c: "collectProjectAccess pid am
          (AList.update (UserEmail entry) (rolesOf pa0 (UserEmail entry) @ [role]) pa0) = Inr pa"
      by (cases "Roles entry") (simp_all add: p)
    from Cons.IH [OF c] True r show ?thesis
      by (simp add: p projectGrants_Cons grantsOf_update)
  qed
qed

lemma collectProjectAccess_distinct:
  "collectProjectAccess pid am pa0 = Inr pa \<Longrightarrow> distinct (map fst pa0) \<Longrightarrow> distinct (map fst pa)"
proof (induction am arbitrary: pa0)
  case Nil
  then show ?case by simp
next
  case (Cons p am)
  obtain key entry where p: "p = (key, entry)" by (cases p)
  show ?case
  proof (cases "ResourceID entry = pid")
    case False
    with Cons.prems(1) have "collectProjectAccess pid am pa0 = Inr pa" by (simp add: p)
    from Cons.IH [OF this Cons.prems(2)] show ?thesis .
  next
    case True
    with Cons.prems(1) obtain role roles where r: "Roles entry = role # roles"
      and c: "collectProjectAccess pid am
          (AList.update (UserEmail entry) (rolesOf pa0 (UserEmail entry) @ [role]) pa0) = Inr pa"
      by (cases "Roles entry") (simp_all add: p)
    from Cons.IH [OF c distinct_update [OF Cons.prems(2)]] show ?thesis .
  qed
qed

lemma collectProjectAccess_returns:
  "(\<forall>p\<in>set am. ResourceID (snd p) = pid \<longrightarrow> Roles (snd p) \<noteq> []) =
   (\<exists>pa. collectProjectAccess pid am pa0 = Inr pa)"
proof (induction am arbitrary: pa0)
  case Nil
  show ?case by simp
next
  case (Cons p am)
  obtain key entry where p: "p = (key, entry)" by (cases p)
  show ?case
  proof (cases "ResourceID entry = pid")
    case False
    with Cons.IH [of pa0] show ?thesis by (simp add: p)
  next
    case True
    show ?thesis
    proof (cases "Roles entry")
      case Nil
      with True show ?thesis by (simp add: p)
    next
      case (Cons role roles)
      with True Cons.IH [of "AList.update (UserEmail entry) (rolesOf pa0 (UserEmail entry) @ [role]) pa0"]
      show ?thesis by (simp add: p)
    qed
  qed
qed

lemma grantsOf_member:
  "(u, r) \<in> grantsOf pa \<Longrightarrow> \<exists>roles. (u, roles) \<in> set pa \<and> r \<in> set roles"
  unfolding grantsOf_def rolesOf_def
  by (cases "map_of pa u") (auto dest: map_of_SomeD)

lemma grantsOf_listed:
  assumes "distinct (map fst pa)" and "(u, roles) \<in> set pa" and "r \<in> set roles"
  shows "(u, r) \<in> grantsOf pa"
proof -
  from assms(1,2) have "map_of pa u = Some roles" by simp
  then have "rolesOf pa u = roles" by (simp add: rolesOf_def)
  with assms(3) show ?thesis by (simp add: grantsOf_def)
qed

text \<open>The step is idempotent in whatever order the second run visits the entries, the
  users, the roles and the resources.\<close>

lemma resolveInherited_idempotent_any_order:
  assumes "resolveInherited pid rm am = Inr am'"
    and "set am'' = set am'" and "set rm' \<subseteq> set rm"
  shows "resolveInherited pid rm' am'' = Inr am''"
proof -
  from assms(1) obtain pa where pa: "collectProjectAccess pid am [] = Inr pa"
    and am': "am' = inheritUsers pid pa rm am"
    by (auto simp: resolveInherited_def split: sum.splits)
  from resolveInherited_grows [OF assms(1)] obtain added where app: "am' = am @ added"
    and added: "\<forall>p\<in>set added. ResourceID (snd p) \<noteq> pid"
    unfolding grows_def by blast
  have same: "p \<in> set am'' \<and> ResourceID (snd p) = pid \<longleftrightarrow>
              p \<in> set am \<and> ResourceID (snd p) = pid" for p
    using assms(2) app added by auto
  then have grants: "projectGrants pid am'' = projectGrants pid am"
    unfolding projectGrants_def by auto
  from pa have "\<forall>p\<in>set am. ResourceID (snd p) = pid \<longrightarrow> Roles (snd p) \<noteq> []"
    using collectProjectAccess_returns [of am pid "[]"] by blast
  with same have "\<forall>p\<in>set am''. ResourceID (snd p) = pid \<longrightarrow> Roles (snd p) \<noteq> []"
    by blast
  then obtain pa'' where pa'': "collectProjectAccess pid am'' [] = Inr pa''"
    using collectProjectAccess_returns [of am'' pid "[]"] by blast
  from collectProjectAccess_grants [OF pa''] collectProjectAccess_grants [OF pa] grants
  have eq: "grantsOf pa'' = grantsOf pa" by simp
  from collectProjectAccess_distinct [OF pa''] have dist: "distinct (map fst pa'')" by simp
  have "inheritUsers pid pa'' rm' am'' = am''"
  proof (rule inheritUsers_fix)
    fix userEmail roles'' role
    assume "(userEmail, roles'') \<in> set pa''" and "role \<in> set roles''"
    from grantsOf_listed [OF dist this] eq have "(userEmail, role) \<in> grantsOf pa" by simp
    from grantsOf_member [OF this] obtain roles
      where "(userEmail, roles) \<in> set pa" and "role \<in> set roles" by blast
    from inheritUsers_cover [OF this, of pid rm am]
    have "inheritedKeys pid userEmail role (getApplicableResourceTypes role) rm \<subseteq> fst ` set am'"
      by (simp add: am')
    with inheritedKeys_mono [OF assms(3)] assms(2)
    show "inheritedKeys pid userEmail role (getApplicableResourceTypes role) rm' \<subseteq>
          fst ` set am''"
      by blast
  qed
  with pa'' show ?thesis by (simp add: resolveInherited_def)
qed

section \<open>The principal list\<close>

lemma addMembers_parsedMap:
  "parsedMap um \<Longrightarrow>
   parsedMap (addMembers ms um) \<and> fst ` set (addMembers ms um) = fst ` set um \<union> set ms"
proof (induction ms arbitrary: um)
  case Nil
  then show ?case by simp
next
  case (Cons member ms)
  let ?um1 = "if map_of um member = None
        then AList.update member (parseUser member) um else um"
  have um1: "parsedMap ?um1 \<and> fst ` set ?um1 = insert member (fst ` set um)"
  proof (cases "member \<in> fst ` set um")
    case True
    then have "map_of um member \<noteq> None" by (simp add: map_of_eq_None_iff)
    with Cons.prems True show ?thesis by auto
  next
    case False
    then have "map_of um member = None" by (simp add: map_of_eq_None_iff)
    with Cons.prems False show ?thesis
      by (auto simp: update_absent parsedMap_def)
  qed
  from Cons.IH [of ?um1] um1 show ?case by auto
qed

lemma addBindings_parsedMap:
  "parsedMap um \<Longrightarrow>
   parsedMap (addBindings bs um) \<and>
   fst ` set (addBindings bs um) = fst ` set um \<union> (\<Union>binding\<in>set bs. set (Members binding))"
proof (induction bs arbitrary: um)
  case Nil
  then show ?case by simp
next
  case (Cons binding bs)
  from addMembers_parsedMap [OF Cons.prems, of "Members binding"]
  have 1: "parsedMap (addMembers (Members binding) um)"
    and 2: "fst ` set (addMembers (Members binding) um) = fst ` set um \<union> set (Members binding)"
    by simp_all
  from Cons.IH [OF 1] 2 show ?case by auto
qed

lemma parsedMap_users: "parsedMap um \<Longrightarrow> map snd um = map parseUser (map fst um)"
  by (simp add: parsedMap_def)

lemma usersExtend_refl: "usersExtend st st"
  by (simp add: usersExtend_def)

lemma usersExtend_trans:
  assumes "usersExtend st st'" and "usersExtend st' st''"
  shows "usersExtend st st''"
proof -
  from assms(1) obtain a1 where a1: "users st' = users st @ a1" "distinct (map Email a1)"
    "Email ` set a1 \<inter> validUsers st = {}" "validUsers st' = validUsers st \<union> Email ` set a1"
    unfolding usersExtend_def by blast
  from assms(2) obtain a2 where a2: "users st'' = users st' @ a2" "distinct (map Email a2)"
    "Email ` set a2 \<inter> validUsers st' = {}" "validUsers st'' = validUsers st' \<union> Email ` set a2"
    unfolding usersExtend_def by blast
  have "users st'' = users st @ (a1 @ a2)" using a1(1) a2(1) by simp
  moreover have "distinct (map Email (a1 @ a2))" using a1(2,4) a2(2,3) by auto
  moreover have "Email ` set (a1 @ a2) \<inter> validUsers st = {}" using a1(3,4) a2(3) by auto
  moreover have "validUsers st'' = validUsers st \<union> Email ` set (a1 @ a2)"
    using a1(4) a2(4) by auto
  ultimately show ?thesis unfolding usersExtend_def by blast
qed

lemma usersExtend_step:
  "usersExtend st
     ((if Email user \<notin> validUsers st
       then st\<lparr>validUsers := insert (Email user) (validUsers st), users := users st @ [user]\<rparr>
       else st)\<lparr>accessMap := am\<rparr>)"
proof (cases "Email user \<in> validUsers st")
  case True
  then show ?thesis unfolding usersExtend_def by (intro exI [of _ "[]"]) simp
next
  case False
  then show ?thesis unfolding usersExtend_def by (intro exI [of _ "[user]"]) simp
qed

lemma processMembers_usersExtend:
  "usersExtend st (processMembers resourceID resourceName resourceType role ms st)"
proof (induction ms arbitrary: st)
  case Nil
  show ?case by (simp add: usersExtend_refl)
next
  case (Cons member ms)
  show ?case
    unfolding processMembers.simps Let_def
    by (rule usersExtend_trans [OF usersExtend_step Cons.IH])
qed

lemma processBindings_usersExtend:
  "usersExtend st (processBindings resourceID resourceName resourceType bs st)"
proof (induction bs arbitrary: st)
  case Nil
  show ?case by (simp add: usersExtend_refl)
next
  case (Cons binding bs)
  show ?case
    unfolding processBindings.simps
    by (rule usersExtend_trans [OF processMembers_usersExtend Cons.IH])
qed

lemma usersExtend_resourcesMap: "usersExtend st (st\<lparr>resourcesMap := rm\<rparr>)"
  by (simp add: usersExtend_def)

lemma processPolicy_usersExtend: "usersExtend st (processPolicy policy st)"
  unfolding processPolicy_def Let_def
  by (rule usersExtend_trans [OF usersExtend_resourcesMap processBindings_usersExtend])

lemma searchPolicies_usersExtend: "searchPolicies it st = Inr st' \<Longrightarrow> usersExtend st st'"
proof (induction it st rule: searchPolicies.induct)
  case (1 st)
  then show ?case by (simp add: usersExtend_refl)
next
  case (2 e it st)
  then show ?case by simp
next
  case (3 policy it st)
  then have "usersExtend (processPolicy policy st) st'" by simp
  from usersExtend_trans [OF processPolicy_usersExtend this] show ?case .
qed

lemma newUsers_append:
  "newUsers seen (xs @ ys) = newUsers seen xs @ newUsers (seen \<union> Email ` set xs) ys"
proof (induction xs arbitrary: seen)
  case Nil
  show ?case by simp
next
  case (Cons x xs)
  show ?case
  proof (cases "Email x \<in> seen")
    case True
    then have "seen \<union> Email ` set (x # xs) = seen \<union> Email ` set xs" by auto
    with True Cons.IH [of seen] show ?thesis by simp
  next
    case False
    have "seen \<union> Email ` set (x # xs) = insert (Email x) seen \<union> Email ` set xs" by auto
    with False Cons.IH [of "insert (Email x) seen"] show ?thesis by simp
  qed
qed

lemma newUsers_subset: "set (newUsers seen us) \<subseteq> set us"
  by (induction us arbitrary: seen) auto

lemma newUsers_fresh: "Email ` set (newUsers seen us) \<inter> seen = {}"
proof (induction us arbitrary: seen)
  case Nil
  show ?case by simp
next
  case (Cons u us)
  from Cons.IH [of seen] Cons.IH [of "insert (Email u) seen"] show ?case by auto
qed

lemma newUsers_distinct: "distinct (map Email (newUsers seen us))"
proof (induction us arbitrary: seen)
  case Nil
  show ?case by simp
next
  case (Cons u us)
  from newUsers_fresh [of "insert (Email u) seen" us]
  have "Email u \<notin> Email ` set (newUsers (insert (Email u) seen) us)" by auto
  with Cons.IH [of seen] Cons.IH [of "insert (Email u) seen"] show ?case by simp
qed

lemma newUsers_covers: "Email ` set us \<subseteq> seen \<union> Email ` set (newUsers seen us)"
proof (induction us arbitrary: seen)
  case Nil
  show ?case by simp
next
  case (Cons u us)
  from Cons.IH [of seen] Cons.IH [of "insert (Email u) seen"] show ?case by auto
qed

lemma processMembers_users:
  "users (processMembers resourceID resourceName resourceType role ms st) =
     users st @ newUsers (validUsers st) (map parseUser ms) \<and>
   validUsers (processMembers resourceID resourceName resourceType role ms st) =
     validUsers st \<union> Email ` parseUser ` set ms"
proof (induction ms arbitrary: st)
  case Nil
  show ?case by simp
next
  case (Cons member ms)
  define user where "user = parseUser member"
  define st1 where "st1 = (if Email user \<notin> validUsers st
       then st\<lparr>validUsers := insert (Email user) (validUsers st), users := users st @ [user]\<rparr>
       else st)"
  define st2 where "st2 = st1\<lparr>accessMap := addAccess (accessKey (Email user) resourceID role)
              \<lparr>UserEmail = Email user, ResourceID = resourceID, ResourceName = resourceName,
               ResourceType = resourceType, Roles = [role]\<rparr> (accessMap st1)\<rparr>"
  have step: "processMembers resourceID resourceName resourceType role (member # ms) st =
      processMembers resourceID resourceName resourceType role ms st2"
    by (simp add: Let_def user_def st1_def st2_def)
  have u2: "users st2 = (if Email user \<in> validUsers st then users st else users st @ [user])"
    and v2: "validUsers st2 = insert (Email user) (validUsers st)"
    by (auto simp: st2_def st1_def)
  from Cons.IH [of st2] show ?case
    unfolding step by (auto simp: u2 v2 user_def insert_absorb)
qed

lemma processBindings_users:
  "users (processBindings resourceID resourceName resourceType bs st) =
     users st @ newUsers (validUsers st) (map parseUser (concat (map Members bs))) \<and>
   validUsers (processBindings resourceID resourceName resourceType bs st) =
     validUsers st \<union> Email ` parseUser ` set (concat (map Members bs))"
proof (induction bs arbitrary: st)
  case Nil
  show ?case by simp
next
  case (Cons binding bs)
  let ?st1 = "processMembers resourceID resourceName resourceType (Role binding) (Members binding) st"
  from processMembers_users [of resourceID resourceName resourceType "Role binding" "Members binding" st]
  have u1: "users ?st1 = users st @ newUsers (validUsers st) (map parseUser (Members binding))"
    and v1: "validUsers ?st1 = validUsers st \<union> Email ` parseUser ` set (Members binding)"
    by simp_all
  from Cons.IH [of ?st1] show ?case
    by (simp add: u1 v1 newUsers_append image_Un Un_assoc image_image)
qed

lemma processPolicy_users:
  "users (processPolicy policy st) =
     users st @ newUsers (validUsers st) (map parseUser (policyMembers policy)) \<and>
   validUsers (processPolicy policy st) =
     validUsers st \<union> Email ` parseUser ` set (policyMembers policy)"
  using processBindings_users [of "Resource policy" "extractResourceName (Resource policy)"
      "extractResourceType (Resource policy)" "Bindings policy"
      "st\<lparr>resourcesMap := trackResource (Resource policy) (resourcesMap st)\<rparr>"]
  by (simp add: processPolicy_def Let_def policyMembers_def)

lemma searchPolicies_users:
  "searchPolicies it st = Inr st' \<Longrightarrow>
   users st' = users st @ newUsers (validUsers st) (map parseUser (streamMembers it)) \<and>
   validUsers st' = validUsers st \<union> Email ` parseUser ` set (streamMembers it)"
proof (induction it st rule: searchPolicies.induct)
  case (1 st)
  then show ?case by (simp add: streamMembers_def)
next
  case (2 e it st)
  then show ?case by simp
next
  case (3 policy it st)
  then have r: "searchPolicies it (processPolicy policy st) = Inr st'" by simp
  have sm: "streamMembers (Inr policy # it) = policyMembers policy @ streamMembers it"
    by (simp add: streamMembers_def)
  from 3(1) [OF r] processPolicy_users [of policy st] show ?case
    by (simp add: sm newUsers_append image_Un Un_assoc image_image)
qed

text \<open>
  Claim C8, as the code has it. The user list that \<^verbatim>\<open>GetAccessMatrix\<close> returns is, first,
  one user per distinct member string of the project policy (\<^verbatim>\<open>GetUsers\<close> keys its map by
  the raw member string), and then the users the policy search added: going through the
  members of the search in order, the parsed member is added when no user with its email is
  in the list yet. So the added users are parsed members of the search, every member of the
  search has a user with its email in the list, the added users have pairwise different
  emails, and none has the email of a user of the first part. The list has at most one
  user per email whenever the member strings of the project policy give pairwise different
  emails.
\<close>

theorem principals_unique_when_directory_is:
  assumes "GetAccessMatrix c = Inr m"
  shows "\<exists>bindings members added.
           GetIamPolicy c = Inr bindings \<and> distinct members \<and>
           set members = (\<Union>binding\<in>set bindings. set (Members binding)) \<and>
           Users m = map parseUser members @ added \<and>
           added = newUsers (Email ` parseUser ` set members)
                     (map parseUser (streamMembers (SearchAllIamPolicies c))) \<and>
           set added \<subseteq> parseUser ` set (streamMembers (SearchAllIamPolicies c)) \<and>
           (\<forall>member\<in>set (streamMembers (SearchAllIamPolicies c)).
              Email (parseUser member) \<in> Email ` set (Users m)) \<and>
           distinct (map Email added) \<and>
           Email ` set added \<inter> Email ` parseUser ` set members = {} \<and>
           (distinct (map (Email \<circ> parseUser) members) \<longrightarrow> distinct (map Email (Users m)))"
proof -
  from assms obtain users0 where users0: "GetUsers c = Inr users0"
    by (cases "GetUsers c") (simp_all add: GetAccessMatrix_def)
  then obtain bindings where bindings: "GetIamPolicy c = Inr bindings"
    and users0_eq: "users0 = map snd (addBindings bindings [])"
    by (cases "GetIamPolicy c") (simp_all add: GetUsers_def)
  define members where "members = map fst (addBindings bindings [])"
  have "parsedMap []" by (simp add: parsedMap_def)
  from addBindings_parsedMap [OF this, of bindings]
  have pm: "parsedMap (addBindings bindings [])"
    and keys: "set members = (\<Union>binding\<in>set bindings. set (Members binding))"
    by (simp_all add: members_def)
  from pm have dm: "distinct members" by (simp add: parsedMap_def members_def)
  from parsedMap_users [OF pm] have u0: "users0 = map parseUser members"
    by (simp add: users0_eq members_def)
  let ?st0 = "\<lparr>users = users0, validUsers = set (map Email users0),
               resourcesMap = knownResourcesMap c, accessMap = []\<rparr>"
  let ?seen = "Email ` parseUser ` set members"
  let ?stream = "streamMembers (SearchAllIamPolicies c)"
  define added where "added = newUsers ?seen (map parseUser ?stream)"
  from assms users0 obtain st where st: "searchPolicies (SearchAllIamPolicies c) ?st0 = Inr st"
    and um: "Users m = users st"
    by (auto simp: GetAccessMatrix_def split: option.splits sum.splits)
  have seen: "validUsers ?st0 = ?seen" by (simp add: u0 image_image)
  from searchPolicies_users [OF st] have "users st = users0 @ newUsers (validUsers ?st0) (map parseUser ?stream)"
    by simp
  then have 1: "Users m = map parseUser members @ added"
    unfolding seen by (simp add: um u0 added_def)
  have 2: "set added \<subseteq> parseUser ` set ?stream"
    using newUsers_subset [of ?seen "map parseUser ?stream"] by (simp add: added_def)
  have 3: "distinct (map Email added)" by (simp add: added_def newUsers_distinct)
  have 4: "Email ` set added \<inter> ?seen = {}" unfolding added_def by (rule newUsers_fresh)
  have "Email ` set (map parseUser ?stream) \<subseteq> ?seen \<union> Email ` set added"
    unfolding added_def by (rule newUsers_covers)
  then have 5: "\<forall>member\<in>set ?stream. Email (parseUser member) \<in> Email ` set (Users m)"
    unfolding 1 by (auto simp: image_image)
  have 6: "distinct (map (Email \<circ> parseUser) members) \<longrightarrow> distinct (map Email (Users m))"
    using 1 3 4 by (auto simp: image_image)
  from bindings dm keys 1 2 3 4 5 6 added_def show ?thesis by blast
qed

lemmas evaluate =
  GetAccessMatrix_def GetUsers_def knownResourcesMap_def GetResources_def getGKEClusters_def
  getVMs_def getCloudRunServices_def zones_def instanceResource_def processPolicy_def
  trackResource_def parseUser_def addAccess_def accessKey_def groupKey_def rolesOf_def
  resolveInherited_def projectResourceID_def extractResourceName_def extractResourceType_def
  getApplicableResourceTypes_def Contains_def Let_def decimal.simps digit_def emptyProject_def

lemma processMembers_Cons_record:
  "processMembers resourceID resourceName resourceType role (member # ms)
     \<lparr>users = us, validUsers = vs, resourcesMap = rm, accessMap = am\<rparr> =
   processMembers resourceID resourceName resourceType role ms
     \<lparr>users = (if Email (parseUser member) \<in> vs then us else us @ [parseUser member]),
      validUsers = insert (Email (parseUser member)) vs, resourcesMap = rm,
      accessMap = addAccess (accessKey (Email (parseUser member)) resourceID role)
        \<lparr>UserEmail = Email (parseUser member), ResourceID = resourceID,
         ResourceName = resourceName, ResourceType = resourceType, Roles = [role]\<rparr> am\<rparr>"
  by (simp add: Let_def insert_absorb)

lemma sharedAddresses_matrix:
  "GetAccessMatrix sharedAddresses =
     Inr \<lparr>Users = [\<lparr>Email = ''alice@example.com'', User.Type = ''user''\<rparr>,
                   \<lparr>Email = ''bob@example.com'', User.Type = ''user''\<rparr>],
          Resources = [\<lparr>ID = ''//storage.googleapis.com/b'', Resource.Name = ''b'',
                        Resource.Type = ''storage'', Resource.Location = ''global'', IAM = []\<rparr>],
          Access = [\<lparr>UserEmail = ''alice@example.com'', ResourceID = ''//storage.googleapis.com/b'',
                     ResourceName = ''b'', ResourceType = ''storage'',
                     Roles = [''roles/storage.objectViewer'']\<rparr>,
                    \<lparr>UserEmail = ''bob@example.com'', ResourceID = ''//storage.googleapis.com/b'',
                     ResourceName = ''b'', ResourceType = ''storage'',
                     Roles = [''roles/storage.objectViewer'']\<rparr>]\<rparr>"
  by (simp add: sharedAddresses_def evaluate processMembers_Cons_record del: processMembers.simps(2))

theorem principals_unique_when_directory_is_witness:
  "GetAccessMatrix sharedAddresses =
     Inr \<lparr>Users = [\<lparr>Email = ''alice@example.com'', User.Type = ''user''\<rparr>,
                   \<lparr>Email = ''bob@example.com'', User.Type = ''user''\<rparr>],
          Resources = [\<lparr>ID = ''//storage.googleapis.com/b'', Resource.Name = ''b'',
                        Resource.Type = ''storage'', Resource.Location = ''global'', IAM = []\<rparr>],
          Access = [\<lparr>UserEmail = ''alice@example.com'', ResourceID = ''//storage.googleapis.com/b'',
                     ResourceName = ''b'', ResourceType = ''storage'',
                     Roles = [''roles/storage.objectViewer'']\<rparr>,
                    \<lparr>UserEmail = ''bob@example.com'', ResourceID = ''//storage.googleapis.com/b'',
                     ResourceName = ''b'', ResourceType = ''storage'',
                     Roles = [''roles/storage.objectViewer'']\<rparr>]\<rparr> \<and>
   streamMembers (SearchAllIamPolicies sharedAddresses) =
     [''group:alice@example.com'', ''user:bob@example.com'', ''serviceAccount:bob@example.com''] \<and>
   (\<exists>members added.
      distinct members \<and> set members = {''user:alice@example.com''} \<and>
      [\<lparr>Email = ''alice@example.com'', User.Type = ''user''\<rparr>,
       \<lparr>Email = ''bob@example.com'', User.Type = ''user''\<rparr>] = map parseUser members @ added \<and>
      added = newUsers (Email ` parseUser ` set members)
                (map parseUser [''group:alice@example.com'', ''user:bob@example.com'',
                                ''serviceAccount:bob@example.com'']) \<and>
      set added \<subseteq> parseUser ` {''group:alice@example.com'', ''user:bob@example.com'',
                                   ''serviceAccount:bob@example.com''} \<and>
      distinct (map Email added) \<and>
      Email ` set added \<inter> Email ` parseUser ` set members = {})"
proof -
  have sm: "streamMembers (SearchAllIamPolicies sharedAddresses) =
     [''group:alice@example.com'', ''user:bob@example.com'', ''serviceAccount:bob@example.com'']"
    by (simp add: sharedAddresses_def emptyProject_def streamMembers_def policyMembers_def)
  have pol: "GetIamPolicy sharedAddresses =
      Inr [\<lparr>Role = ''roles/editor'', Members = [''user:alice@example.com'']\<rparr>]"
    by (simp add: sharedAddresses_def emptyProject_def)
  let ?M = "\<lparr>Users = [\<lparr>Email = ''alice@example.com'', User.Type = ''user''\<rparr>,
                   \<lparr>Email = ''bob@example.com'', User.Type = ''user''\<rparr>],
          Resources = [\<lparr>ID = ''//storage.googleapis.com/b'', Resource.Name = ''b'',
                        Resource.Type = ''storage'', Resource.Location = ''global'', IAM = []\<rparr>],
          Access = [\<lparr>UserEmail = ''alice@example.com'', ResourceID = ''//storage.googleapis.com/b'',
                     ResourceName = ''b'', ResourceType = ''storage'',
                     Roles = [''roles/storage.objectViewer'']\<rparr>,
                    \<lparr>UserEmail = ''bob@example.com'', ResourceID = ''//storage.googleapis.com/b'',
                     ResourceName = ''b'', ResourceType = ''storage'',
                     Roles = [''roles/storage.objectViewer'']\<rparr>]\<rparr>"
  from principals_unique_when_directory_is [OF sharedAddresses_matrix]
  obtain bindings members added where f1: "GetIamPolicy sharedAddresses = Inr bindings"
    and f2: "distinct members"
    and f3: "set members = (\<Union>binding\<in>set bindings. set (Members binding))"
    and f4: "Users ?M = map parseUser members @ added"
    and f5: "added = newUsers (Email ` parseUser ` set members)
                     (map parseUser (streamMembers (SearchAllIamPolicies sharedAddresses)))"
    and f6: "set added \<subseteq> parseUser ` set (streamMembers (SearchAllIamPolicies sharedAddresses))"
    and f7: "distinct (map Email added)"
    and f8: "Email ` set added \<inter> Email ` parseUser ` set members = {}"
    by (elim exE conjE) (rule that; assumption)
  from f1 pol have b: "bindings = [\<lparr>Role = ''roles/editor'', Members = [''user:alice@example.com'']\<rparr>]"
    by simp
  from f3 have g3: "set members = {''user:alice@example.com''}"
    unfolding b by simp
  from f4 have g4: "[\<lparr>Email = ''alice@example.com'', User.Type = ''user''\<rparr>,
       \<lparr>Email = ''bob@example.com'', User.Type = ''user''\<rparr>] = map parseUser members @ added"
    by simp
  from f5 have g5: "added = newUsers (Email ` parseUser ` set members)
                (map parseUser [''group:alice@example.com'', ''user:bob@example.com'',
                                ''serviceAccount:bob@example.com''])"
    unfolding sm .
  from f6 have g6: "set added \<subseteq> parseUser ` {''group:alice@example.com'', ''user:bob@example.com'',
                                   ''serviceAccount:bob@example.com''}"
    unfolding sm by simp
  have ex: "\<exists>members added.
      distinct members \<and> set members = {''user:alice@example.com''} \<and>
      [\<lparr>Email = ''alice@example.com'', User.Type = ''user''\<rparr>,
       \<lparr>Email = ''bob@example.com'', User.Type = ''user''\<rparr>] = map parseUser members @ added \<and>
      added = newUsers (Email ` parseUser ` set members)
                (map parseUser [''group:alice@example.com'', ''user:bob@example.com'',
                                ''serviceAccount:bob@example.com'']) \<and>
      set added \<subseteq> parseUser ` {''group:alice@example.com'', ''user:bob@example.com'',
                                   ''serviceAccount:bob@example.com''} \<and>
      distinct (map Email added) \<and>
      Email ` set added \<inter> Email ` parseUser ` set members = {}"
    by (rule exI [of _ members], rule exI [of _ added]) (intro conjI f2 g3 g4 g5 g6 f7 f8)
  from sharedAddresses_matrix sm ex show ?thesis by (intro conjI)
qed

text \<open>Two members of the project policy with one address under two prefixes give two
  users with the same email.\<close>

theorem same_identifier_twice_in_directory:
  "GetAccessMatrix (emptyProject\<lparr>GetIamPolicy :=
      Inr [\<lparr>Role = ''roles/viewer'',
            Members = [''user:a@example.com'', ''group:a@example.com'']\<rparr>]\<rparr>) =
     Inr \<lparr>Users = [\<lparr>Email = ''a@example.com'', User.Type = ''user''\<rparr>,
                   \<lparr>Email = ''a@example.com'', User.Type = ''group''\<rparr>],
          Resources = [], Access = []\<rparr> \<and>
   \<not> distinct (map Email [\<lparr>Email = ''a@example.com'', User.Type = ''user''\<rparr>,
                           \<lparr>Email = ''a@example.com'', User.Type = ''group''\<rparr>])"
  by (simp add: evaluate processMembers_Cons_record del: processMembers.simps(2))

section \<open>Identifiers of the inventory and of the policy search\<close>

lemma extractResourceName_last_segment:
  "CHR ''/'' \<notin> set name \<Longrightarrow> extractResourceName (pre @ ''/'' @ name) = name"
  using last_Split [of "CHR ''/''" name pre]
  by (simp add: extractResourceName_def Let_def Split_not_Nil)

lemma extractResourceName_plain:
  "CHR ''/'' \<notin> set s \<Longrightarrow> extractResourceName s = s"
  by (simp add: extractResourceName_def Split_without_separator)

lemma decimal_digits: "set (decimal n) \<subseteq> set ''0123456789''"
proof (induction n rule: decimal.induct)
  case (1 n)
  have d: "\<And>k. k < 10 \<Longrightarrow> digit k \<in> set ''0123456789''"
    unfolding digit_def by (rule nth_mem) simp
  show ?case
  proof (cases "n < 10")
    case True
    with d [of n] show ?thesis by (subst decimal.simps) simp
  next
    case False
    have "n mod 10 < 10" by simp
    from d [OF this] 1 [OF False] False show ?thesis by (subst decimal.simps) simp
  qed
qed

lemma Contains_set: "Contains s substr \<Longrightarrow> set substr \<subseteq> set s"
  by (simp add: Contains_sublist set_mono_sublist)

lemma decimal_not_Contains: "CHR ''.'' \<in> set substr \<Longrightarrow> \<not> Contains (decimal n) substr"
  using decimal_digits [of n] by (auto dest!: Contains_set)

lemma extractResourceType_decimal: "extractResourceType (decimal n) = ''other''"
proof -
  have "\<not> HasPrefix (decimal n) ''//''"
  proof
    assume "HasPrefix (decimal n) ''//''"
    then have "set ''//'' \<subseteq> set (decimal n)"
      by (simp only: HasPrefix_prefix set_mono_prefix)
    with decimal_digits [of n] show False by auto
  qed
  then show ?thesis
    by (simp add: extractResourceType_def decimal_not_Contains)
qed

lemma extractResourceName_decimal: "extractResourceName (decimal n) = decimal n"
proof (rule extractResourceName_plain)
  from decimal_digits [of n] show "CHR ''/'' \<notin> set (decimal n)" by auto
qed

text \<open>
  Claim C2, as the code has it. The resource map is keyed by the raw identifier, and no
  reference is merged with another by kind and name. Take a VM of the inventory, stored
  under its numeric id, and a policy entry whose resource is a compute asset name ending
  in \<^verbatim>\<open>/\<close> and the VM's name, not tracked yet. \<^verbatim>\<open>extractResourceType\<close> and
  \<^verbatim>\<open>extractResourceName\<close> give the asset name the type and name of the VM resource, but give
  the numeric id the type \<^verbatim>\<open>other\<close> and the id itself as name; the two identifiers differ,
  and after the policy entry is processed the map holds two resources: the VM under its
  numeric id, unchanged, and a new one under the asset name, of type \<^verbatim>\<open>vm\<close>, with the VM's
  name and the location \<^verbatim>\<open>global\<close>.
\<close>

theorem numeric_id_and_asset_name_not_merged:
  assumes "Resource policy = pre @ ''/'' @ Instance.Name instance"
    and "CHR ''/'' \<notin> set (Instance.Name instance)"
    and "Contains (Resource policy) ''compute.googleapis.com''"
    and "\<not> Contains (Resource policy) ''cloudresourcemanager.googleapis.com/projects''"
    and "\<not> Contains (Resource policy) ''cloudresourcemanager.googleapis.com/organizations''"
    and "vm = instanceResource c zone instance"
    and "map_of (resourcesMap st) (ID vm) = Some vm"
    and "map_of (resourcesMap st) (Resource policy) = None"
  shows "(extractResourceType (Resource policy), extractResourceName (Resource policy)) =
           (Resource.Type vm, Resource.Name vm) \<and>
         (extractResourceType (ID vm), extractResourceName (ID vm)) = (''other'', ID vm) \<and>
         ID vm \<noteq> Resource policy \<and>
         map_of (resourcesMap (processPolicy policy st)) (ID vm) = Some vm \<and>
         map_of (resourcesMap (processPolicy policy st)) (Resource policy) =
           Some \<lparr>ID = Resource policy, Resource.Name = Instance.Name instance,
                 Resource.Type = ''vm'', Resource.Location = ''global'', IAM = []\<rparr>"
proof -
  have name: "extractResourceName (Resource policy) = Instance.Name instance"
    unfolding assms(1) by (rule extractResourceName_last_segment [OF assms(2)])
  have type: "extractResourceType (Resource policy) = ''vm''"
    using assms(3,4,5) by (simp add: extractResourceType_def)
  have id: "ID vm = decimal (unat (Id instance))"
    by (simp add: assms(6) instanceResource_def)
  have differ: "ID vm \<noteq> Resource policy"
    using assms(7,8) by auto
  have 1: "(extractResourceType (Resource policy), extractResourceName (Resource policy)) =
           (Resource.Type vm, Resource.Name vm)"
    by (simp add: name type assms(6) instanceResource_def)
  have 2: "(extractResourceType (ID vm), extractResourceName (ID vm)) = (''other'', ID vm)"
    by (simp add: id extractResourceType_decimal extractResourceName_decimal)
  have 3: "map_of (resourcesMap (processPolicy policy st)) (ID vm) = Some vm"
    using assms(7,8) differ
    by (simp add: processPolicy_def Let_def trackResource_def update_conv')
  have 4: "map_of (resourcesMap (processPolicy policy st)) (Resource policy) =
           Some \<lparr>ID = Resource policy, Resource.Name = Instance.Name instance,
                 Resource.Type = ''vm'', Resource.Location = ''global'', IAM = []\<rparr>"
    using assms(8)
    by (simp add: processPolicy_def Let_def trackResource_def update_conv' name type)
  from 1 2 differ 3 4 show ?thesis by simp
qed

theorem numeric_id_and_asset_name_not_merged_witness:
  "map_of (resourcesMap (processPolicy
      \<lparr>Resource = ''//compute.googleapis.com/projects/p/zones/us-central1-a/instances/vm-1'',
       Bindings = []\<rparr>
      \<lparr>users = [], validUsers = {},
       resourcesMap = [(''42'', \<lparr>ID = ''42'', Resource.Name = ''vm-1'', Resource.Type = ''vm'',
                                Resource.Location = ''us-central1-a'', IAM = []\<rparr>)],
       accessMap = []\<rparr>)) ''42'' =
     Some \<lparr>ID = ''42'', Resource.Name = ''vm-1'', Resource.Type = ''vm'',
           Resource.Location = ''us-central1-a'', IAM = []\<rparr> \<and>
   map_of (resourcesMap (processPolicy
      \<lparr>Resource = ''//compute.googleapis.com/projects/p/zones/us-central1-a/instances/vm-1'',
       Bindings = []\<rparr>
      \<lparr>users = [], validUsers = {},
       resourcesMap = [(''42'', \<lparr>ID = ''42'', Resource.Name = ''vm-1'', Resource.Type = ''vm'',
                                Resource.Location = ''us-central1-a'', IAM = []\<rparr>)],
       accessMap = []\<rparr>))
      ''//compute.googleapis.com/projects/p/zones/us-central1-a/instances/vm-1'' =
     Some \<lparr>ID = ''//compute.googleapis.com/projects/p/zones/us-central1-a/instances/vm-1'',
           Resource.Name = ''vm-1'', Resource.Type = ''vm'', Resource.Location = ''global'',
           IAM = []\<rparr> \<and>
   (extractResourceType ''42'', extractResourceName ''42'') = (''other'', ''42'')"
proof -
  let ?policy = "\<lparr>Resource = ''//compute.googleapis.com/projects/p/zones/us-central1-a/instances/vm-1'',
       Bindings = []\<rparr>"
  let ?instance = "\<lparr>Id = 42, Instance.Name = ''vm-1''\<rparr>"
  let ?vm = "\<lparr>ID = ''42'', Resource.Name = ''vm-1'', Resource.Type = ''vm'',
           Resource.Location = ''us-central1-a'', IAM = []\<rparr>"
  let ?st = "\<lparr>users = [], validUsers = {}, resourcesMap = [(''42'', ?vm)], accessMap = []\<rparr>"
  have 1: "Resource ?policy =
      ''//compute.googleapis.com/projects/p/zones/us-central1-a/instances'' @ ''/'' @
      Instance.Name ?instance" by simp
  have 2: "CHR ''/'' \<notin> set (Instance.Name ?instance)" by simp
  have 3: "Contains (Resource ?policy) ''compute.googleapis.com''"
    by (simp add: Contains_def)
  have 4: "\<not> Contains (Resource ?policy) ''cloudresourcemanager.googleapis.com/projects''"
    by (simp add: Contains_def)
  have 5: "\<not> Contains (Resource ?policy) ''cloudresourcemanager.googleapis.com/organizations''"
    by (simp add: Contains_def)
  have 6: "?vm = instanceResource emptyProject ''us-central1-a'' ?instance"
    by (simp add: instanceResource_def emptyProject_def decimal.simps digit_def)
  have 7: "map_of (resourcesMap ?st) (ID ?vm) = Some ?vm" by simp
  have 8: "map_of (resourcesMap ?st) (Resource ?policy) = None" by simp
  from numeric_id_and_asset_name_not_merged [OF 1 2 3 4 5 6 7 8]
  show ?thesis by simp
qed

text \<open>The two identifiers of one VM do not get the same kind and name, and the matrix lists
  the VM twice: once from the inventory, once from the policy search.\<close>

theorem vm_tracked_twice:
  "(extractResourceType ''42'', extractResourceName ''42'') \<noteq>
   (extractResourceType ''//compute.googleapis.com/projects/p/zones/us-central1-a/instances/vm-1'',
    extractResourceName ''//compute.googleapis.com/projects/p/zones/us-central1-a/instances/vm-1'') \<and>
   GetAccessMatrix (emptyProject
     \<lparr>ListInstances := (\<lambda>zone. if zone = ''us-central1-a''
                                then [Inr \<lparr>Id = 42, Instance.Name = ''vm-1''\<rparr>] else []),
      SearchAllIamPolicies :=
        [Inr \<lparr>Resource = ''//compute.googleapis.com/projects/p/zones/us-central1-a/instances/vm-1'',
              Bindings = []\<rparr>]\<rparr>) =
     Inr \<lparr>Users = [],
          Resources =
            [\<lparr>ID = ''42'', Resource.Name = ''vm-1'', Resource.Type = ''vm'',
              Resource.Location = ''us-central1-a'', IAM = []\<rparr>,
             \<lparr>ID = ''//compute.googleapis.com/projects/p/zones/us-central1-a/instances/vm-1'',
              Resource.Name = ''vm-1'', Resource.Type = ''vm'', Resource.Location = ''global'',
              IAM = []\<rparr>],
          Access = []\<rparr>"
  by (simp add: evaluate)

section \<open>The principals of the access entries\<close>

text \<open>
  The grouping key is the email, \<^verbatim>\<open>::\<close> and the resource id, and it is split at \<^verbatim>\<open>::\<close>
  again. The split gives the email back whenever the email, followed by one colon, holds no
  two colons in a row, that is, when the email neither ends with a colon nor holds \<^verbatim>\<open>::\<close>;
  then every user of an access entry is in the user list.
\<close>

lemma HasPrefix_colon_append:
  "HasPrefix (u @ '':'') '':'' = HasPrefix (u @ ''::'' @ r) '':''"
  by (cases u) simp_all

lemma Index_groupKey:
  "\<not> Contains (u @ '':'') ''::'' \<Longrightarrow> Index (u @ ''::'' @ r) ''::'' = Some (length u)"
proof (induction u)
  case Nil
  show ?case by simp
next
  case (Cons c u)
  from Cons.prems have 1: "\<not> HasPrefix (c # u @ '':'') ''::''"
    and 2: "\<not> Contains (u @ '':'') ''::''"
    by (simp_all add: Contains_Cons)
  from 1 have "\<not> HasPrefix (c # u @ ''::'' @ r) ''::''"
    using HasPrefix_colon_append [of u r] by simp
  with Cons.IH [OF 2] show ?case by simp
qed

lemma Split_groupKey:
  assumes "\<not> Contains (u @ '':'') ''::''"
  shows "Split (groupKey u r) ''::'' = u # Split r ''::''"
  using Index_groupKey [OF assms, of r] by (simp add: groupKey_def)

lemma emailsIn_addAccess:
  "emailsIn E am \<Longrightarrow> UserEmail entry \<in> E \<Longrightarrow> emailsIn E (addAccess key entry am)"
  by (simp add: emailsIn_def addAccess_eq)

lemma emailsIn_mono: "emailsIn E am \<Longrightarrow> E \<subseteq> E' \<Longrightarrow> emailsIn E' am"
  by (auto simp: emailsIn_def)

lemma processMembers_usersListed:
  "usersListed st \<Longrightarrow> usersListed (processMembers resourceID resourceName resourceType role ms st)"
proof (induction ms arbitrary: st)
  case Nil
  then show ?case by simp
next
  case (Cons member ms)
  define user where "user = parseUser member"
  define st1 where "st1 = (if Email user \<notin> validUsers st
       then st\<lparr>validUsers := insert (Email user) (validUsers st), users := users st @ [user]\<rparr>
       else st)"
  define st2 where "st2 = st1\<lparr>accessMap := addAccess (accessKey (Email user) resourceID role)
              \<lparr>UserEmail = Email user, ResourceID = resourceID, ResourceName = resourceName,
               ResourceType = resourceType, Roles = [role]\<rparr> (accessMap st1)\<rparr>"
  have step: "processMembers resourceID resourceName resourceType role (member # ms) st =
      processMembers resourceID resourceName resourceType role ms st2"
    by (simp add: Let_def user_def st1_def st2_def)
  from Cons.prems have v1: "validUsers st1 = Email ` set (users st1)"
    and in1: "Email user \<in> validUsers st1"
    and sub: "validUsers st \<subseteq> validUsers st1"
    and am1: "accessMap st1 = accessMap st"
    by (auto simp: usersListed_def st1_def)
  from Cons.prems sub am1 have "emailsIn (validUsers st1) (accessMap st1)"
    by (auto simp: usersListed_def intro: emailsIn_mono)
  from emailsIn_addAccess [OF this] in1 v1 have "usersListed st2"
    by (simp add: usersListed_def st2_def)
  from Cons.IH [OF this] show ?case by (simp only: step)
qed

lemma processBindings_usersListed:
  "usersListed st \<Longrightarrow> usersListed (processBindings resourceID resourceName resourceType bs st)"
  by (induction bs arbitrary: st) (simp_all add: processMembers_usersListed)

lemma processPolicy_usersListed: "usersListed st \<Longrightarrow> usersListed (processPolicy policy st)"
  unfolding processPolicy_def Let_def
  by (rule processBindings_usersListed) (auto simp: usersListed_def)

lemma searchPolicies_usersListed:
  "searchPolicies it st = Inr st' \<Longrightarrow> usersListed st \<Longrightarrow> usersListed st'"
proof (induction it st rule: searchPolicies.induct)
  case (1 st)
  then show ?case by simp
next
  case (2 e it st)
  then show ?case by simp
next
  case (3 policy it st)
  then show ?case by (simp add: processPolicy_usersListed)
qed

lemma collectProjectAccess_keys:
  "collectProjectAccess pid am pa = Inr pa' \<Longrightarrow> emailsIn E am \<Longrightarrow> fst ` set pa \<subseteq> E \<Longrightarrow>
   fst ` set pa' \<subseteq> E"
proof (induction am arbitrary: pa)
  case Nil
  then show ?case by simp
next
  case (Cons p am)
  obtain key entry where p: "p = (key, entry)" by (cases p)
  from Cons.prems(2) have e: "UserEmail entry \<in> E" and rest: "emailsIn E am"
    by (simp_all add: emailsIn_def p)
  show ?case
  proof (cases "ResourceID entry = pid")
    case False
    with Cons.prems(1) have "collectProjectAccess pid am pa = Inr pa'" by (simp add: p)
    from Cons.IH [OF this rest Cons.prems(3)] show ?thesis .
  next
    case True
    with Cons.prems(1) obtain role roles where "Roles entry = role # roles"
      and c: "collectProjectAccess pid am
          (AList.update (UserEmail entry) (rolesOf pa (UserEmail entry) @ [role]) pa) = Inr pa'"
      by (cases "Roles entry") (simp_all add: p)
    have "fst ` set (AList.update (UserEmail entry) (rolesOf pa (UserEmail entry) @ [role]) pa) \<subseteq> E"
      using e Cons.prems(3) by (simp add: dom_update)
    from Cons.IH [OF c rest this] show ?thesis .
  qed
qed

lemma inheritResources_emailsIn:
  "emailsIn E am \<Longrightarrow> userEmail \<in> E \<Longrightarrow>
   emailsIn E (inheritResources pid userEmail role types rm am)"
proof (induction rm arbitrary: am)
  case Nil
  then show ?case by simp
next
  case (Cons p rm)
  obtain resourceID resource where p: "p = (resourceID, resource)" by (cases p)
  show ?case
    unfolding p inheritResources.simps
    by (rule Cons.IH) (simp_all add: Cons.prems emailsIn_addAccess)
qed

lemma inheritRoles_emailsIn:
  "emailsIn E am \<Longrightarrow> userEmail \<in> E \<Longrightarrow> emailsIn E (inheritRoles pid userEmail roles rm am)"
  by (induction roles arbitrary: am) (simp_all add: inheritResources_emailsIn)

lemma inheritUsers_emailsIn:
  "emailsIn E am \<Longrightarrow> fst ` set pa \<subseteq> E \<Longrightarrow> emailsIn E (inheritUsers pid pa rm am)"
proof (induction pa arbitrary: am)
  case Nil
  then show ?case by simp
next
  case (Cons p pa)
  obtain userEmail roles where p: "p = (userEmail, roles)" by (cases p)
  from Cons.prems(2) have u: "userEmail \<in> E" and rest: "fst ` set pa \<subseteq> E"
    by (simp_all add: p)
  show ?case
    unfolding p inheritUsers.simps
    by (rule Cons.IH [OF inheritRoles_emailsIn [OF Cons.prems(1) u] rest])
qed

lemma groupRoles_keys:
  "groupRoles am urr = Inr urr' \<Longrightarrow> emailsIn E am \<Longrightarrow>
   \<forall>key\<in>fst ` set urr. \<exists>u r. u \<in> E \<and> key = groupKey u r \<Longrightarrow>
   \<forall>key\<in>fst ` set urr'. \<exists>u r. u \<in> E \<and> key = groupKey u r"
proof (induction am arbitrary: urr)
  case Nil
  then show ?case by simp
next
  case (Cons p am)
  obtain k entry where p: "p = (k, entry)" by (cases p)
  from Cons.prems(2) have e: "UserEmail entry \<in> E" and rest: "emailsIn E am"
    by (simp_all add: emailsIn_def p)
  let ?key = "groupKey (UserEmail entry) (ResourceID entry)"
  from Cons.prems(1) obtain role roles where "Roles entry = role # roles"
    and g: "groupRoles am (AList.update ?key (rolesOf urr ?key @ [role]) urr) = Inr urr'"
    by (cases "Roles entry") (simp_all add: p Let_def)
  have "\<forall>key\<in>fst ` set (AList.update ?key (rolesOf urr ?key @ [role]) urr).
          \<exists>u r. u \<in> E \<and> key = groupKey u r"
    using e Cons.prems(3) by (auto simp: dom_update)
  from Cons.IH [OF g rest this] show ?case .
qed

lemma buildEntries_users:
  "e \<in> set (buildEntries urr rm accessEntries) \<Longrightarrow>
   e \<in> set accessEntries \<or> (\<exists>key\<in>fst ` set urr. \<exists>r. Split key ''::'' = [UserEmail e, r])"
proof (induction urr arbitrary: accessEntries)
  case Nil
  then show ?case by simp
next
  case (Cons p urr)
  obtain key roles where p: "p = (key, roles)" by (cases p)
  define acc1 where "acc1 = (case Split key ''::'' of
          [userEmail, resourceID] \<Rightarrow>
            (case map_of rm resourceID of
               None \<Rightarrow> accessEntries
             | Some resource \<Rightarrow>
                 accessEntries @
                   [\<lparr>UserEmail = userEmail, ResourceID = resourceID,
                     ResourceName = Resource.Name resource, ResourceType = Resource.Type resource,
                     Roles = roles\<rparr>])
        | _ \<Rightarrow> accessEntries)"
  from Cons.prems have "e \<in> set (buildEntries urr rm acc1)"
    by (simp add: p acc1_def)
  from Cons.IH [OF this]
  consider "e \<in> set acc1" | "\<exists>key\<in>fst ` set urr. \<exists>r. Split key ''::'' = [UserEmail e, r]"
    by blast
  then show ?case
  proof cases
    case 1
    then have "e \<in> set accessEntries \<or> (\<exists>r. Split key ''::'' = [UserEmail e, r])"
      by (auto simp: acc1_def split: list.splits option.splits)
    then show ?thesis by (auto simp: p)
  next
    case 2
    then show ?thesis by auto
  qed
qed

lemma entries_name_listed_users:
  assumes "GetAccessMatrix c = Inr m"
    and "\<forall>u\<in>set (Users m). \<not> Contains (Email u @ '':'') ''::''"
  shows "\<forall>e\<in>set (Access m). UserEmail e \<in> Email ` set (Users m)"
proof
  fix e
  assume e: "e \<in> set (Access m)"
  from assms(1) obtain users0 where users0: "GetUsers c = Inr users0"
    by (cases "GetUsers c") (simp_all add: GetAccessMatrix_def)
  let ?st0 = "\<lparr>users = users0, validUsers = set (map Email users0),
               resourcesMap = knownResourcesMap c, accessMap = []\<rparr>"
  from assms(1) users0 obtain st am urr
    where st: "searchPolicies (SearchAllIamPolicies c) ?st0 = Inr st"
      and am: "resolveInherited (projectResourceID c) (resourcesMap st) (accessMap st) = Inr am"
      and urr: "groupRoles am [] = Inr urr"
      and m: "m = \<lparr>Users = users st, Resources = map snd (resourcesMap st),
                   Access = buildEntries urr (resourcesMap st) []\<rparr>"
    by (auto simp: GetAccessMatrix_def split: option.splits sum.splits)
  let ?E = "Email ` set (users st)"
  have "usersListed ?st0" by (simp add: usersListed_def emailsIn_def)
  from searchPolicies_usersListed [OF st this]
  have direct: "emailsIn ?E (accessMap st)" by (auto simp: usersListed_def)
  from am obtain pa where pa: "collectProjectAccess (projectResourceID c) (accessMap st) [] = Inr pa"
    and am_eq: "am = inheritUsers (projectResourceID c) pa (resourcesMap st) (accessMap st)"
    by (auto simp: resolveInherited_def split: sum.splits)
  from collectProjectAccess_keys [OF pa direct] have "fst ` set pa \<subseteq> ?E" by simp
  from inheritUsers_emailsIn [OF direct this] have "emailsIn ?E am" by (simp add: am_eq)
  from groupRoles_keys [OF urr this]
  have keys: "\<forall>key\<in>fst ` set urr. \<exists>u r. u \<in> ?E \<and> key = groupKey u r" by simp
  from e m have "e \<in> set (buildEntries urr (resourcesMap st) [])" by simp
  from buildEntries_users [OF this] obtain key r
    where key: "key \<in> fst ` set urr" and split: "Split key ''::'' = [UserEmail e, r]" by auto
  from keys key obtain u r' where u: "u \<in> ?E" and key_eq: "key = groupKey u r'" by blast
  from u assms(2) m have "\<not> Contains (u @ '':'') ''::''" by auto
  from Split_groupKey [OF this, of r'] split key_eq have "UserEmail e = u" by simp
  with u m show "UserEmail e \<in> Email ` set (Users m)" by simp
qed

lemma inheritedAndScoped_matrix:
  "GetAccessMatrix inheritedAndScoped = Inr inheritedAndScopedMatrix"
  by (simp add: inheritedAndScoped_def inheritedAndScopedMatrix_def evaluate
      processMembers_Cons_record del: processMembers.simps(2))

lemma HasPrefix_Index: "HasPrefix s sep \<Longrightarrow> Index s sep = Some 0"
  by (cases s; cases sep) simp_all

lemma Index_before_separator:
  "\<exists>m. Index (xs @ sep @ ys) sep = Some m \<and> m \<le> length xs"
proof (induction xs)
  case Nil
  have "HasPrefix (sep @ ys) sep" by (simp add: HasPrefix_prefix)
  from HasPrefix_Index [OF this] show ?case by simp
next
  case (Cons x xs)
  then obtain m where "Index (xs @ sep @ ys) sep = Some m" and "m \<le> length xs" by blast
  then show ?case by (cases "HasPrefix (x # xs @ sep @ ys) sep") simp_all
qed

lemma Split_singleton:
  assumes "sep \<noteq> []" and "Split s sep = [b]"
  shows "Index s sep = None \<and> b = s"
proof (cases "Index s sep")
  case None
  with assms show ?thesis by simp
next
  case (Some m)
  with assms(1) have "Split s sep = take m s # Split (drop (m + length sep) s) sep" by simp
  with assms(2) Split_not_Nil [OF assms(1), of "drop (m + length sep) s"] show ?thesis by simp
qed

lemma Split_groupKey_parts:
  assumes "Split (groupKey u r) ''::'' = [a, b]"
  shows "a = u \<or> HasPrefix b '':''"
proof -
  let ?s = "u @ ''::'' @ r"
  from Index_before_separator [of u "''::''" r]
  obtain m where m: "Index ?s ''::'' = Some m" and le: "m \<le> length u" by blast
  from m have "Split ?s ''::'' = take m ?s # Split (drop (m + 2) ?s) ''::''" by simp
  with assms have a: "a = take m ?s" and rest: "Split (drop (m + 2) ?s) ''::'' = [b]"
    by (simp_all add: groupKey_def)
  from Split_singleton [OF _ rest]
  have none: "Index (drop (m + 2) ?s) ''::'' = None" and b: "b = drop (m + 2) ?s" by simp_all
  consider "m = length u" | "m + 2 \<le> length u" | "Suc m = length u" using le by linarith
  then show ?thesis
  proof cases
    case 1
    with a show ?thesis by simp
  next
    case 2
    then have "drop (m + 2) ?s = drop (m + 2) u @ ''::'' @ r" by simp
    with Index_before_separator [of "drop (m + 2) u" "''::''" r] none show ?thesis by simp
  next
    case 3
    then have "drop (m + 2) ?s = '':'' @ r" by simp
    with b show ?thesis by simp
  qed
qed

lemma buildEntries_parts:
  "e \<in> set (buildEntries urr rm accessEntries) \<Longrightarrow>
   e \<in> set accessEntries \<or>
   (\<exists>key\<in>fst ` set urr. Split key ''::'' = [UserEmail e, ResourceID e] \<and>
      ResourceID e \<in> fst ` set rm)"
proof (induction urr arbitrary: accessEntries)
  case Nil
  then show ?case by simp
next
  case (Cons p urr)
  obtain key roles where p: "p = (key, roles)" by (cases p)
  define acc1 where "acc1 = (case Split key ''::'' of
          [userEmail, resourceID] \<Rightarrow>
            (case map_of rm resourceID of
               None \<Rightarrow> accessEntries
             | Some resource \<Rightarrow>
                 accessEntries @
                   [\<lparr>UserEmail = userEmail, ResourceID = resourceID,
                     ResourceName = Resource.Name resource, ResourceType = Resource.Type resource,
                     Roles = roles\<rparr>])
        | _ \<Rightarrow> accessEntries)"
  from Cons.prems have "e \<in> set (buildEntries urr rm acc1)"
    by (simp add: p acc1_def)
  from Cons.IH [OF this]
  consider "e \<in> set acc1"
    | "\<exists>key\<in>fst ` set urr. Split key ''::'' = [UserEmail e, ResourceID e] \<and>
         ResourceID e \<in> fst ` set rm"
    by blast
  then show ?case
  proof cases
    case 1
    then have "e \<in> set accessEntries \<or>
        (Split key ''::'' = [UserEmail e, ResourceID e] \<and> ResourceID e \<in> fst ` set rm)"
      by (auto simp: acc1_def split: list.splits option.splits
          dest!: map_of_SomeD intro: image_eqI [rotated])
    then show ?thesis by (auto simp: p)
  next
    case 2
    then show ?thesis by auto
  qed
qed

text \<open>The tracked resource ids are those of the inventory and of the policy search.\<close>

lemma prepopulate_keys: "fst ` set (prepopulate rs rm) = fst ` set rm \<union> ID ` set rs"
  by (induction rs arbitrary: rm) (auto simp: dom_update)

lemma trackResource_keys:
  "fst ` set (trackResource resourceID rm) = insert resourceID (fst ` set rm)"
  by (auto simp: trackResource_def dom_update map_of_eq_None_iff)

lemma searchPolicies_keys:
  "searchPolicies it st = Inr st' \<Longrightarrow>
   fst ` set (resourcesMap st') = fst ` set (resourcesMap st) \<union> {Resource policy | policy. Inr policy \<in> set it}"
proof (induction it st rule: searchPolicies.induct)
  case (1 st)
  then show ?case by simp
next
  case (2 e it st)
  then show ?case by simp
next
  case (3 policy it st)
  then have "fst ` set (resourcesMap st') =
      fst ` set (resourcesMap (processPolicy policy st)) \<union> {Resource policy | policy. Inr policy \<in> set it}"
    by simp
  then show ?case
    by (auto simp: processPolicy_def Let_def trackResource_keys)
qed

lemma listServices_ids:
  "listServices c it resources = Inr rs \<Longrightarrow>
   ID ` set rs \<subseteq> ID ` set resources \<union> {Service.Name service | service. Inr service \<in> set it}"
proof (induction c it resources rule: listServices.induct)
  case (1 c resources)
  then show ?case by auto
next
  case (2 c e it resources)
  then show ?case by simp
next
  case (3 c service it resources)
  then have "ID ` set rs \<subseteq> ID ` set (resources @ [serviceResource c service]) \<union>
      {Service.Name service | service. Inr service \<in> set it}"
    by simp
  then show ?case by (auto simp: serviceResource_def)
qed

lemma listZones_ids: "ID ` set (listZones c zs []) \<subseteq> range decimal"
  by (auto simp: listZones_eq instanceResource_def)

lemma GetResources_ids:
  assumes "GetResources c = Inr known"
  shows "\<exists>clusters. ListClusters c = Inr clusters \<and>
           ID ` set known \<subseteq> SelfLink ` set clusters \<union> range decimal \<union>
             {Service.Name service | service. Inr service \<in> set (ListServices c)}"
proof -
  from assms obtain clusters run where cl: "ListClusters c = Inr clusters"
    and run: "listServices c (ListServices c) [] = Inr run"
    and known: "known = map clusterResource clusters @ listZones c zones [] @ run"
    by (auto simp: GetResources_def getGKEClusters_def getVMs_def getCloudRunServices_def
        split: sum.splits)
  have gke: "ID ` set (map clusterResource clusters) \<subseteq> SelfLink ` set clusters"
    by (auto simp: clusterResource_def)
  have vms: "ID ` set (listZones c zones []) \<subseteq> range decimal"
    by (rule listZones_ids)
  from listServices_ids [OF run]
  have services: "ID ` set run \<subseteq>
      {Service.Name service | service. Inr service \<in> set (ListServices c)}" by simp
  have eq: "ID ` set known = ID ` set (map clusterResource clusters) \<union>
      ID ` set (listZones c zones []) \<union> ID ` set run"
    unfolding known by (simp only: set_append image_Un Un_assoc)
  have "ID ` set known \<subseteq> SelfLink ` set clusters \<union> range decimal \<union>
             {Service.Name service | service. Inr service \<in> set (ListServices c)}"
    unfolding eq by (rule Un_mono [OF Un_mono [OF gke vms] services])
  with cl show ?thesis by (intro exI [of _ clusters] conjI)
qed

lemma decimal_no_colon: "\<not> HasPrefix (decimal n) '':''"
proof
  assume "HasPrefix (decimal n) '':''"
  then have "set '':'' \<subseteq> set (decimal n)"
    by (simp only: HasPrefix_prefix set_mono_prefix)
  with decimal_digits [of n] show False by auto
qed

text \<open>When the split gives two parts and the first is not the email, the email ends with
  a colon and the second part, a tracked resource id, begins with one.\<close>

lemma entry_listed_or_colon:
  assumes "GetAccessMatrix c = Inr m" and "e \<in> set (Access m)"
  shows "UserEmail e \<in> Email ` set (Users m) \<or>
         (HasPrefix (ResourceID e) '':'' \<and>
          ResourceID e \<in> fst ` set (knownResourcesMap c) \<union>
            {Resource policy | policy. Inr policy \<in> set (SearchAllIamPolicies c)})"
proof -
  from assms(1) obtain users0 where users0: "GetUsers c = Inr users0"
    by (cases "GetUsers c") (simp_all add: GetAccessMatrix_def)
  let ?st0 = "\<lparr>users = users0, validUsers = set (map Email users0),
               resourcesMap = knownResourcesMap c, accessMap = []\<rparr>"
  from assms(1) users0 obtain st am urr
    where st: "searchPolicies (SearchAllIamPolicies c) ?st0 = Inr st"
      and am: "resolveInherited (projectResourceID c) (resourcesMap st) (accessMap st) = Inr am"
      and urr: "groupRoles am [] = Inr urr"
      and m: "m = \<lparr>Users = users st, Resources = map snd (resourcesMap st),
                   Access = buildEntries urr (resourcesMap st) []\<rparr>"
    by (auto simp: GetAccessMatrix_def split: option.splits sum.splits)
  let ?E = "Email ` set (users st)"
  have "usersListed ?st0" by (simp add: usersListed_def emailsIn_def)
  from searchPolicies_usersListed [OF st this]
  have direct: "emailsIn ?E (accessMap st)" by (auto simp: usersListed_def)
  from am obtain pa where pa: "collectProjectAccess (projectResourceID c) (accessMap st) [] = Inr pa"
    and am_eq: "am = inheritUsers (projectResourceID c) pa (resourcesMap st) (accessMap st)"
    by (auto simp: resolveInherited_def split: sum.splits)
  from collectProjectAccess_keys [OF pa direct] have "fst ` set pa \<subseteq> ?E" by simp
  from inheritUsers_emailsIn [OF direct this] have "emailsIn ?E am" by (simp add: am_eq)
  from groupRoles_keys [OF urr this]
  have keys: "\<forall>key\<in>fst ` set urr. \<exists>u r. u \<in> ?E \<and> key = groupKey u r" by simp
  from assms(2) m have "e \<in> set (buildEntries urr (resourcesMap st) [])" by simp
  from buildEntries_parts [OF this] obtain key
    where key: "key \<in> fst ` set urr" and split: "Split key ''::'' = [UserEmail e, ResourceID e]"
      and tracked: "ResourceID e \<in> fst ` set (resourcesMap st)" by auto
  from keys key obtain u r where u: "u \<in> ?E" and key_eq: "key = groupKey u r" by blast
  from split key_eq have "Split (groupKey u r) ''::'' = [UserEmail e, ResourceID e]" by simp
  from Split_groupKey_parts [OF this]
  have "UserEmail e = u \<or> HasPrefix (ResourceID e) '':''" .
  moreover from searchPolicies_keys [OF st] tracked
  have "ResourceID e \<in> fst ` set (knownResourcesMap c) \<union>
            {Resource policy | policy. Inr policy \<in> set (SearchAllIamPolicies c)}" by simp
  ultimately show ?thesis using u m by auto
qed

text \<open>
  Claim C3. Every user that an access entry of the returned matrix names is in the returned
  user list: users with grants on single resources only, and users of inherited entries,
  too. This holds for every successful run in which no resource name that the APIs deliver
  begins with a colon: the resources of the policy search, the self links of the clusters
  and the names of the Cloud Run services (the ids of the VMs are decimal numbers).
\<close>

theorem access_entries_name_listed_users:
  assumes "GetAccessMatrix c = Inr m"
    and "\<forall>policy. Inr policy \<in> set (SearchAllIamPolicies c) \<longrightarrow> \<not> HasPrefix (Resource policy) '':''"
    and "\<forall>clusters. ListClusters c = Inr clusters \<longrightarrow>
           (\<forall>cluster\<in>set clusters. \<not> HasPrefix (SelfLink cluster) '':'')"
    and "\<forall>service. Inr service \<in> set (ListServices c) \<longrightarrow> \<not> HasPrefix (Service.Name service) '':''"
  shows "\<forall>e\<in>set (Access m). UserEmail e \<in> Email ` set (Users m)"
proof
  fix e
  assume e: "e \<in> set (Access m)"
  show "UserEmail e \<in> Email ` set (Users m)"
  proof (rule ccontr)
    assume "UserEmail e \<notin> Email ` set (Users m)"
    with entry_listed_or_colon [OF assms(1) e]
    have colon: "HasPrefix (ResourceID e) '':''"
      and src: "ResourceID e \<in> fst ` set (knownResourcesMap c) \<union>
            {Resource policy | policy. Inr policy \<in> set (SearchAllIamPolicies c)}"
      by simp_all
    from src show False
    proof
      assume "ResourceID e \<in> {Resource policy | policy. Inr policy \<in> set (SearchAllIamPolicies c)}"
      with assms(2) colon show False by auto
    next
      assume k: "ResourceID e \<in> fst ` set (knownResourcesMap c)"
      then obtain known where known: "GetResources c = Inr known"
        and id: "ResourceID e \<in> ID ` set known"
        by (cases "GetResources c") (auto simp: knownResourcesMap_def prepopulate_keys)
      from GetResources_ids [OF known] obtain clusters where cl: "ListClusters c = Inr clusters"
        and ids: "ID ` set known \<subseteq> SelfLink ` set clusters \<union> range decimal \<union>
             {Service.Name service | service. Inr service \<in> set (ListServices c)}"
        by blast
      from id ids consider "ResourceID e \<in> SelfLink ` set clusters"
        | "ResourceID e \<in> range decimal"
        | "ResourceID e \<in> {Service.Name service | service. Inr service \<in> set (ListServices c)}"
        by blast
      then show False
      proof cases
        case 1
        with assms(3) cl colon show False by auto
      next
        case 2
        with decimal_no_colon colon show False by auto
      next
        case 3
        with assms(4) colon show False by auto
      qed
    qed
  qed
qed

theorem access_entries_name_listed_users_witness:
  "GetAccessMatrix inheritedAndScoped = Inr inheritedAndScopedMatrix \<and>
   UserEmail ` set (Access inheritedAndScopedMatrix) =
     {''alice@example.com'', ''bob@example.com''} \<and>
   Email ` set (Users inheritedAndScopedMatrix) = {''alice@example.com'', ''bob@example.com''} \<and>
   UserEmail ` set (Access inheritedAndScopedMatrix) \<subseteq>
     Email ` set (Users inheritedAndScopedMatrix)"
proof -
  have 2: "\<forall>policy. Inr policy \<in> set (SearchAllIamPolicies inheritedAndScoped) \<longrightarrow>
      \<not> HasPrefix (Resource policy) '':''"
    by (auto simp: inheritedAndScoped_def emptyProject_def)
  have 3: "\<forall>clusters. ListClusters inheritedAndScoped = Inr clusters \<longrightarrow>
           (\<forall>cluster\<in>set clusters. \<not> HasPrefix (SelfLink cluster) '':'')"
    by (auto simp: inheritedAndScoped_def emptyProject_def)
  have 4: "\<forall>service. Inr service \<in> set (ListServices inheritedAndScoped) \<longrightarrow>
      \<not> HasPrefix (Service.Name service) '':''"
    by (auto simp: inheritedAndScoped_def emptyProject_def)
  from access_entries_name_listed_users [OF inheritedAndScoped_matrix 2 3 4]
  have "UserEmail ` set (Access inheritedAndScopedMatrix) \<subseteq>
     Email ` set (Users inheritedAndScopedMatrix)" by blast
  moreover have "UserEmail ` set (Access inheritedAndScopedMatrix) =
     {''alice@example.com'', ''bob@example.com''}"
    by (auto simp: inheritedAndScopedMatrix_def)
  moreover have "Email ` set (Users inheritedAndScopedMatrix) =
     {''alice@example.com'', ''bob@example.com''}"
    by (auto simp: inheritedAndScopedMatrix_def)
  ultimately show ?thesis using inheritedAndScoped_matrix by (intro conjI)
qed

text \<open>The hypothesis on the resource names is needed: were \<^verbatim>\<open>:r\<close> and \<^verbatim>\<open>r\<close> both
  resource names of the policy search and \<^verbatim>\<open>user:x:\<close> a member on \<^verbatim>\<open>r\<close>, the key \<^verbatim>\<open>x:::r\<close>
  would split into \<^verbatim>\<open>x\<close> and \<^verbatim>\<open>:r\<close>, and the entry would name the user \<^verbatim>\<open>x\<close>, who is not
  in the list. No API delivers such names.\<close>

lemma colon_resource_name_splits_wrongly:
  "GetAccessMatrix (emptyProject\<lparr>SearchAllIamPolicies :=
      [Inr \<lparr>Resource = '':r'', Bindings = []\<rparr>,
       Inr \<lparr>Resource = ''r'',
            Bindings = [\<lparr>Role = ''roles/viewer'', Members = [''user:x:'']\<rparr>]\<rparr>]\<rparr>) =
     Inr \<lparr>Users = [\<lparr>Email = ''x:'', User.Type = ''user''\<rparr>],
          Resources = [\<lparr>ID = '':r'', Resource.Name = '':r'', Resource.Type = ''other'',
                        Resource.Location = ''global'', IAM = []\<rparr>,
                       \<lparr>ID = ''r'', Resource.Name = ''r'', Resource.Type = ''other'',
                        Resource.Location = ''global'', IAM = []\<rparr>],
          Access = [\<lparr>UserEmail = ''x'', ResourceID = '':r'', ResourceName = '':r'',
                     ResourceType = ''other'', Roles = [''roles/viewer'']\<rparr>]\<rparr> \<and>
   ''x'' \<notin> Email ` set [\<lparr>Email = ''x:'', User.Type = ''user''\<rparr>]"
  by (simp add: evaluate processMembers_Cons_record del: processMembers.simps(2))

end
